theory Spec2Isabelle
  imports Complex_Main "HOL-Library.Log_Nat"
begin

section \<open>Common Python values\<close>

text \<open>
  Python strings are modelled as \<open>string\<close>, one \<open>char\<close> per code point below 256.

  A Python float is an IEEE 754 double. A finite float is modelled by the rational number it
  denotes, and the result of an arithmetic operation on floats is the exact result rounded to
  the nearest double, ties going to the even significand: \<open>fl\<close>. Infinities and NaN are not
  values of the model, and the sign of a zero is not modelled (the two zeros are equal in
  Python). Python integers are unbounded and exact.
\<close>

datatype error = IndexError | ValueError | AttributeError | TypeError | ZeroDivisionError

definition round_half_even :: "rat \<Rightarrow> int" where
  "round_half_even x =
     (let f = \<lfloor>x\<rfloor>; d = x - of_int f
      in if d < 1 / 2 then f
         else if 1 / 2 < d then f + 1
         else if even f then f else f + 1)"

text \<open>
  \<open>binade x\<close> is the exponent of the power of two at or below \<open>\<bar>x\<bar>\<close>; a double has 53
  significant bits, and the smallest spacing of the doubles is \<open>2 powi (- 1074)\<close>.
\<close>

definition binade :: "rat \<Rightarrow> int" where
  "binade x =
     (let (a, b) = quotient_of \<bar>x\<bar>;
          k = bitlen a - bitlen b
      in if 2 powi k \<le> \<bar>x\<bar> then k else k - 1)"

definition ulp_exp :: "rat \<Rightarrow> int" where
  "ulp_exp x = max (binade x - 52) (- 1074)"

definition fl :: "rat \<Rightarrow> rat" where
  "fl x = of_int (round_half_even (x / 2 powi ulp_exp x)) * 2 powi ulp_exp x"

text \<open>
  A sum at or beyond half-way between the largest double and \<open>2 ^ 1024\<close> is an infinity.
  Division of floats raises \<open>ZeroDivisionError\<close> on a zero divisor, as true division of
  integers does.
\<close>

definition overflows :: "rat \<Rightarrow> bool" where
  "overflows x = (2 ^ 1024 - 2 ^ 970 \<le> \<bar>x\<bar>)"

definition py_div :: "rat \<Rightarrow> rat \<Rightarrow> error + rat" where
  "py_div a b = (if b = 0 then Inl ZeroDivisionError else Inr (fl (a / b)))"

text \<open>
  \<open>round(x, 2)\<close>: the decimal with two places nearest to the float, ties going to the even
  digit, converted to the nearest double.
\<close>

definition hundredths :: "rat \<Rightarrow> int" where
  "hundredths x = round_half_even (x * 100)"

definition round2 :: "rat \<Rightarrow> rat" where
  "round2 x = fl (of_int (hundredths x) / 100)"

definition lower_char :: "char \<Rightarrow> char" where
  "lower_char c =
     (let n = (of_char c :: nat)
      in if (65 \<le> n \<and> n \<le> 90) \<or> (192 \<le> n \<and> n \<le> 222 \<and> n \<noteq> 215)
         then char_of (n + 32) else c)"

definition lower :: "string \<Rightarrow> string" where
  "lower s = map lower_char s"

section \<open>model3: the combined safety score\<close>

record finding =
  name :: string
  status :: string
  reason :: string

text \<open>\<open>mapping.get(key, 0)\<close> for the dictionary of \<open>_compute_ingredient_score\<close>.\<close>

definition mapping_get :: "string \<Rightarrow> int" where
  "mapping_get key =
     (if key = ''safe'' then 1
      else if key = ''caution'' then 0
      else if key = ''unsafe'' then - 1
      else if key = ''unknown'' then 0
      else 0)"

fun raw_loop :: "finding list \<Rightarrow> int \<Rightarrow> int" where
  "raw_loop [] raw = raw"
| "raw_loop (ing # rest) raw = raw_loop rest (raw + mapping_get (lower (status ing)))"

text \<open>
  \<open>raw\<close> and \<open>n\<close> are Python integers, so \<open>(raw + n) / (2 * n)\<close> is the true division of
  two integers, the double nearest to the quotient; the product with 10 is rounded again.
\<close>

definition compute_ingredient_score :: "finding list \<Rightarrow> error + rat" where
  "compute_ingredient_score ingredient_analysis =
     (if ingredient_analysis = [] then Inr 5
      else
        let raw = raw_loop ingredient_analysis 0;
            n = int (length ingredient_analysis)
        in case py_div (of_int (raw + n)) (of_int (2 * n)) of
             Inl e \<Rightarrow> Inl e
           | Inr q \<Rightarrow> Inr (round2 (fl (q * 10))))"

text \<open>
  A numeric nutrition dictionary: keys with a number or \<open>None\<close>.
  \<open>get_or_zero d k\<close> is \<open>float(d.get(k, 0) or 0)\<close>.
\<close>

type_synonym nutrition_info = "(string \<times> rat option) list"

definition get_or_zero :: "nutrition_info \<Rightarrow> string \<Rightarrow> rat" where
  "get_or_zero d k =
     (case map_of d k of None \<Rightarrow> 0 | Some None \<Rightarrow> 0 | Some (Some v) \<Rightarrow> fl v)"

definition compute_nutrition_score_from_values :: "nutrition_info \<Rightarrow> rat" where
  "compute_nutrition_score_from_values d =
     (if d = [] then 5
      else
        let sugar = get_or_zero d ''sugar_g'';
            sodium = get_or_zero d ''sodium_mg'';
            fat = get_or_zero d ''total_fat_g'';
            protein = get_or_zero d ''protein_g'';
            base = 5;
            sugar_penalty = min (fl (sugar / 10)) (5 / 2);
            sodium_penalty = min (fl (sodium / 500)) 2;
            fat_penalty = min (fl (fat / 10)) (3 / 2);
            protein_bonus = min (fl (protein / 5)) 2;
            adj = fl (fl (fl (- sugar_penalty - sodium_penalty) - fat_penalty) + protein_bonus);
            score = max 0 (min 10 (fl (base + adj)))
        in round2 score)"

text \<open>
  \<open>len(nutrition_pros) * 0.5\<close> and \<open>len(nutrition_cons) * 0.7\<close>: the length is converted to a
  float and multiplied by the double nearest to the decimal constant.
\<close>

definition compute_nutrition_score_from_pros_cons :: "string list \<Rightarrow> string list \<Rightarrow> rat" where
  "compute_nutrition_score_from_pros_cons nutrition_pros nutrition_cons =
     (let base = 5;
          base = fl (base + fl (fl (of_nat (length nutrition_pros)) * fl (1 / 2)));
          base = fl (base - fl (fl (of_nat (length nutrition_cons)) * fl (7 / 10)))
      in round2 (max 0 (min 10 base)))"

text \<open>
  The branch of \<open>compute_safety_score\<close> that picks the nutrition sub-score: the numeric
  dictionary when it is given and non-empty, the pros and cons lists otherwise.
\<close>

definition nutri_score_of ::
  "nutrition_info option \<Rightarrow> string list option \<Rightarrow> string list option \<Rightarrow> rat" where
  "nutri_score_of nutrition_info nutrition_pros nutrition_cons =
     (if nutrition_info \<noteq> None \<and> nutrition_info \<noteq> Some []
      then compute_nutrition_score_from_values (the nutrition_info)
      else
        let pros = (case nutrition_pros of None \<Rightarrow> [] | Some p \<Rightarrow> p);
            cons = (case nutrition_cons of None \<Rightarrow> [] | Some c \<Rightarrow> c)
        in compute_nutrition_score_from_pros_cons pros cons)"

text \<open>
  The normalisation of the weights. The sum of two finite weights is the only operation of
  this module that can leave the range of the doubles; it is then an infinity, different from
  0, and a finite weight divided by an infinity is 0.0.
\<close>

definition normalized_weights :: "rat \<Rightarrow> rat \<Rightarrow> error + rat \<times> rat" where
  "normalized_weights weight_ingredient weight_nutrition =
     (let w_ing = fl weight_ingredient;
          w_nut = fl weight_nutrition
      in if overflows (w_ing + w_nut) then Inr (0, 0)
         else
           let total_w = (if fl (w_ing + w_nut) \<noteq> 0 then fl (w_ing + w_nut) else 1)
           in case py_div w_ing total_w of
                Inl e \<Rightarrow> Inl e
              | Inr w_ing \<Rightarrow>
                  (case py_div w_nut total_w of
                     Inl e \<Rightarrow> Inl e
                   | Inr w_nut \<Rightarrow> Inr (w_ing, w_nut)))"

definition combine :: "rat \<Rightarrow> rat \<Rightarrow> rat \<Rightarrow> rat \<Rightarrow> error + rat" where
  "combine ingr_score nutri_score weight_ingredient weight_nutrition =
     (case normalized_weights weight_ingredient weight_nutrition of
        Inl e \<Rightarrow> Inl e
      | Inr (w_ing, w_nut) \<Rightarrow>
          let final = fl (fl (ingr_score * w_ing) + fl (nutri_score * w_nut));
              final = max 0 (min 10 final)
          in Inr (round2 final))"

definition compute_safety_score ::
  "finding list \<Rightarrow> nutrition_info option \<Rightarrow> string list option \<Rightarrow> string list option
     \<Rightarrow> rat \<Rightarrow> rat \<Rightarrow> error + rat" where
  "compute_safety_score ingredient_analysis nutrition_info nutrition_pros nutrition_cons
       weight_ingredient weight_nutrition =
     (case compute_ingredient_score ingredient_analysis of
        Inl e \<Rightarrow> Inl e
      | Inr ingr_score \<Rightarrow>
          combine ingr_score (nutri_score_of nutrition_info nutrition_pros nutrition_cons)
            weight_ingredient weight_nutrition)"

section \<open>model2: text normalisation and fuzzy matching\<close>

text \<open>
  The characters that \<open>\s\<close>, \<open>str.split()\<close> and \<open>str.strip()\<close> treat as whitespace
  (below code point 256), and the characters of the class \<open>[a-z0-9]\<close>.
\<close>

definition is_space :: "char \<Rightarrow> bool" where
  "is_space c =
     (let n = (of_char c :: nat)
      in (9 \<le> n \<and> n \<le> 13) \<or> (28 \<le> n \<and> n \<le> 32) \<or> n = 133 \<or> n = 160)"

definition is_digit :: "char \<Rightarrow> bool" where
  "is_digit c = (let n = (of_char c :: nat) in 48 \<le> n \<and> n \<le> 57)"

definition is_lower_alnum :: "char \<Rightarrow> bool" where
  "is_lower_alnum c = (let n = (of_char c :: nat) in (97 \<le> n \<and> n \<le> 122) \<or> (48 \<le> n \<and> n \<le> 57))"

text \<open>\<open>re.sub(r"[^a-z0-9\s]", " ", text)\<close>: one space for every character outside the class.\<close>

definition sub_other :: "string \<Rightarrow> string" where
  "sub_other text = map (\<lambda>c. if is_lower_alnum c \<or> is_space c then c else CHR '' '') text"

text \<open>\<open>re.sub(r"\s+", " ", text)\<close>: one space for every maximal run of whitespace.\<close>

function sub_spaces :: "string \<Rightarrow> string" where
  "sub_spaces [] = []"
| "sub_spaces (c # cs) =
     (if is_space c then CHR '' '' # sub_spaces (dropWhile is_space cs)
      else c # sub_spaces cs)"
  by pat_completeness auto

termination
  by (relation "measure length") (auto simp: length_dropWhile_le less_Suc_eq_le)

definition lstrip :: "string \<Rightarrow> string" where
  "lstrip s = dropWhile is_space s"

definition rstrip :: "string \<Rightarrow> string" where
  "rstrip s = rev (dropWhile is_space (rev s))"

definition strip :: "string \<Rightarrow> string" where
  "strip s = rstrip (lstrip s)"

definition clean_text :: "string \<Rightarrow> string" where
  "clean_text text =
     (let text = lower text;
          text = sub_other text;
          text = strip (sub_spaces text)
      in text)"

text \<open>\<open>str.split()\<close>: the maximal runs of characters that are not whitespace.\<close>

function split :: "string \<Rightarrow> string list" where
  "split s =
     (let t = dropWhile is_space s
      in if t = [] then []
         else takeWhile (\<lambda>c. \<not> is_space c) t # split (dropWhile (\<lambda>c. \<not> is_space c) t))"
  by pat_completeness auto

termination
proof (relation "measure length")
  show "wf (measure length)" by simp
next
  fix s t :: string
  assume a: "t = dropWhile is_space s" "t \<noteq> []"
  obtain c cs where t: "t = c # cs" using a(2) by (cases t) simp_all
  have "\<not> is_space c" using a(1) t by (metis hd_dropWhile list.sel(1) a(2))
  then have "length (dropWhile (\<lambda>c. \<not> is_space c) t) \<le> length cs"
    using t by (simp add: length_dropWhile_le)
  moreover have "length t \<le> length s" using a(1) by (simp add: length_dropWhile_le)
  ultimately show "(dropWhile (\<lambda>c. \<not> is_space c) t, s) \<in> measure length"
    using t by simp
qed

declare split.simps [simp del]

text \<open>
  \<open>rapidfuzz.fuzz.ratio\<close> is a library function. The matcher takes the similarity as a
  parameter; \<open>fuzz_ratio\<close> is the library's documented value, the normalised Indel
  similarity \<open>100 * 2 * lcs / (len a + len b)\<close>, with 100 for two empty strings.
\<close>

fun lcs :: "string \<Rightarrow> string \<Rightarrow> nat" where
  "lcs [] ys = 0"
| "lcs (x # xs) [] = 0"
| "lcs (x # xs) (y # ys) =
     (if x = y then Suc (lcs xs ys) else max (lcs (x # xs) ys) (lcs xs (y # ys)))"

definition fuzz_ratio :: "string \<Rightarrow> string \<Rightarrow> rat" where
  "fuzz_ratio a b =
     (if a = [] \<and> b = [] then 100
      else 100 * of_nat (2 * lcs a b) / of_nat (length a + length b))"

text \<open>
  The first loop of \<open>match_ingredient\<close>, on the pair \<open>(best_match, highest_score)\<close>;
  \<open>None\<close> is Python's \<open>None\<close>.
\<close>

fun best_loop ::
  "(string \<Rightarrow> string \<Rightarrow> rat) \<Rightarrow> string \<Rightarrow> string list \<Rightarrow> string option \<times> rat
     \<Rightarrow> string option \<times> rat" where
  "best_loop ratio ingr_clean [] (best_match, highest_score) = (best_match, highest_score)"
| "best_loop ratio ingr_clean (ref # refs) (best_match, highest_score) =
     (let ref_clean = clean_text ref;
          score = ratio ingr_clean ref_clean
      in if score > highest_score
         then best_loop ratio ingr_clean refs (Some ref, score)
         else best_loop ratio ingr_clean refs (best_match, highest_score))"

text \<open>The second loop: the first reference sharing a word with the ingredient, if any.\<close>

fun overlap_loop :: "string \<Rightarrow> string list \<Rightarrow> string option" where
  "overlap_loop ingr_clean [] = None"
| "overlap_loop ingr_clean (ref # refs) =
     (let ref_words = split (clean_text ref)
      in if list_ex (\<lambda>word. word \<in> set ref_words) (split ingr_clean) then Some ref
         else overlap_loop ingr_clean refs)"

text \<open>The value returned is \<open>None\<close> when the code returns Python's \<open>None\<close>.\<close>

definition match_ingredient ::
  "(string \<Rightarrow> string \<Rightarrow> rat) \<Rightarrow> string \<Rightarrow> string list \<Rightarrow> rat \<Rightarrow> string option" where
  "match_ingredient ratio ingredient ingredients_list threshold =
     (let ingr_clean = clean_text ingredient;
          (best_match, highest_score) = best_loop ratio ingr_clean ingredients_list (None, 0)
      in if highest_score \<ge> threshold then best_match
         else (case overlap_loop ingr_clean ingredients_list of
                 Some ref \<Rightarrow> Some ref
               | None \<Rightarrow> Some ingredient))"

section \<open>model2: classifier, nutrient evaluator and orchestrator\<close>

text \<open>A row of the ingredient safety table, of which the code reads three columns.\<close>

record safety_row =
  ingredient_name :: string
  safety_status :: string
  reason_for_unsafety :: string

text \<open>\<open>order.get(status, 3)\<close> for the dictionary of \<open>detect_ingredients\<close>.\<close>

definition order_get :: "string \<Rightarrow> nat" where
  "order_get key =
     (if key = ''unsafe'' then 0
      else if key = ''caution'' then 1
      else if key = ''safe'' then 2
      else if key = ''unknown'' then 3
      else 3)"

text \<open>
  The body of the loop of \<open>detect_ingredients\<close>. The matcher is called with its default
  threshold 80; \<open>canonical_name.lower()\<close> raises \<open>AttributeError\<close> on \<open>None\<close>.
\<close>

definition detect_one ::
  "(string \<Rightarrow> string \<Rightarrow> rat) \<Rightarrow> safety_row list \<Rightarrow> string list \<Rightarrow> string \<Rightarrow> error + finding" where
  "detect_one ratio ingredient_safety_df ingredients_list ingr =
     (case match_ingredient ratio ingr ingredients_list 80 of
        None \<Rightarrow> Inl AttributeError
      | Some canonical_name \<Rightarrow>
          (case filter (\<lambda>row. lower (ingredient_name row) = lower canonical_name)
                  ingredient_safety_df of
             [] \<Rightarrow> Inr \<lparr>name = canonical_name, status = ''unknown'',
                       reason = ''No information available''\<rparr>
           | row # _ \<Rightarrow> Inr \<lparr>name = canonical_name, status = safety_status row,
                             reason = reason_for_unsafety row\<rparr>))"

fun detect_loop ::
  "(string \<Rightarrow> string \<Rightarrow> rat) \<Rightarrow> safety_row list \<Rightarrow> string list \<Rightarrow> string list \<Rightarrow> finding list
     \<Rightarrow> error + finding list" where
  "detect_loop ratio df il [] results = Inr results"
| "detect_loop ratio df il (ingr # rest) results =
     (case detect_one ratio df il ingr of
        Inl e \<Rightarrow> Inl e
      | Inr f \<Rightarrow> detect_loop ratio df il rest (results @ [f]))"

text \<open>Python's \<open>sorted\<close> is a stable sort by the key, as \<open>sort_key\<close> is.\<close>

definition detect_ingredients ::
  "(string \<Rightarrow> string \<Rightarrow> rat) \<Rightarrow> string list \<Rightarrow> safety_row list \<Rightarrow> string list
     \<Rightarrow> error + finding list" where
  "detect_ingredients ratio ingredients_input ingredient_safety_df ingredients_list =
     (case detect_loop ratio ingredient_safety_df ingredients_list ingredients_input [] of
        Inl e \<Rightarrow> Inl e
      | Inr results \<Rightarrow> Inr (sort_key (\<lambda>x. order_get (status x)) results))"

text \<open>
  A nutrient value of a product: missing (\<open>None\<close> or NaN), a number, or a string. A row of
  the nutrition standards table.
\<close>

datatype nutrient_value = NNull | NNum rat | NStr string

record threshold_row =
  nutrient :: string
  low_threshold :: rat
  high_threshold :: rat
  note_text :: string

text \<open>
  \<open>re.findall(r"[\d\.]+", value)[0]\<close>: the first maximal run of digits and dots, an
  \<open>IndexError\<close> when there is none.
\<close>

definition is_num_char :: "char \<Rightarrow> bool" where
  "is_num_char c = (is_digit c \<or> c = CHR ''.'')"

definition first_number :: "string \<Rightarrow> error + string" where
  "first_number value =
     (case dropWhile (\<lambda>c. \<not> is_num_char c) value of
        [] \<Rightarrow> Inl IndexError
      | c # cs \<Rightarrow> Inr (takeWhile is_num_char (c # cs)))"

text \<open>
  \<open>float\<close> on a string of digits and dots, the only strings it is given here: digits with
  at most one dot and at least one digit give the double nearest to the decimal, anything
  else a \<open>ValueError\<close>.
\<close>

definition digits_value :: "string \<Rightarrow> nat" where
  "digits_value ds = foldl (\<lambda>a c. 10 * a + (of_char c - 48)) 0 ds"

definition py_float :: "string \<Rightarrow> error + rat" where
  "py_float s =
     (let ip = takeWhile is_digit s; rest = dropWhile is_digit s
      in case rest of
           [] \<Rightarrow> (if ip = [] then Inl ValueError else Inr (fl (of_nat (digits_value ip))))
         | d # fp \<Rightarrow>
             if d = CHR ''.'' \<and> list_all is_digit fp \<and> (ip \<noteq> [] \<or> fp \<noteq> [])
             then Inr (fl (of_nat (digits_value ip) + of_nat (digits_value fp) / 10 ^ length fp))
             else Inl ValueError)"

text \<open>
  The value compared with the thresholds: a number as it is, a string through \<open>float\<close>; a
  missing value is skipped before. The thresholds are \<open>float(row['low_threshold'])\<close> and
  \<open>float(row['high_threshold'])\<close>.
\<close>

definition coerce :: "nutrient_value \<Rightarrow> error + rat" where
  "coerce value =
     (case value of
        NNum v \<Rightarrow> Inr v
      | NStr s \<Rightarrow> (case first_number s of Inl e \<Rightarrow> Inl e | Inr t \<Rightarrow> py_float t)
      | NNull \<Rightarrow> Inl TypeError)"

type_synonym nutrition_input = "(string \<times> nutrient_value) list"

fun evaluate_loop ::
  "nutrition_input \<Rightarrow> threshold_row list \<Rightarrow> string list \<Rightarrow> string list
     \<Rightarrow> error + string list \<times> string list" where
  "evaluate_loop nutrition_input [] pros cons = Inr (pros, cons)"
| "evaluate_loop nutrition_input (row # rows) pros cons =
     (case map_of nutrition_input (nutrient row) of
        None \<Rightarrow> evaluate_loop nutrition_input rows pros cons
      | Some value \<Rightarrow>
          if value = NNull then evaluate_loop nutrition_input rows pros cons
          else
            (case coerce value of
               Inl e \<Rightarrow> Inl e
             | Inr v \<Rightarrow>
                 let low = fl (low_threshold row);
                     high = fl (high_threshold row)
                 in if v < low
                    then evaluate_loop nutrition_input rows pros
                           (cons @ [''Low '' @ nutrient row @ '' ('' @ note_text row @ '')''])
                    else if v > high
                    then evaluate_loop nutrition_input rows pros
                           (cons @ [''High '' @ nutrient row @ '' ('' @ note_text row @ '')''])
                    else evaluate_loop nutrition_input rows
                           (pros @ [''Balanced '' @ nutrient row]) cons))"

definition evaluate_nutrition ::
  "nutrition_input \<Rightarrow> threshold_row list \<Rightarrow> error + string list \<times> string list" where
  "evaluate_nutrition nutrition_input nutrition_df = evaluate_loop nutrition_input nutrition_df [] []"

text \<open>
  The product record, each key possibly absent, and the values of the result dictionary.
\<close>

record product_json =
  ingredients :: "string list option"
  nutrition :: "nutrition_input option"
  product_name :: "string option"

datatype pyval =
  PNone
  | PStr string
  | PStrList "string list"
  | PFindings "finding list"
  | PNutrition nutrition_info

definition analyze_product ::
  "(string \<Rightarrow> string \<Rightarrow> rat) \<Rightarrow> product_json \<Rightarrow> safety_row list \<Rightarrow> threshold_row list \<Rightarrow> string list
     \<Rightarrow> error + (string \<times> pyval) list" where
  "analyze_product ratio product ingredient_safety_df nutrition_df ingredients_list =
     (let ingredients_input = (case ingredients product of None \<Rightarrow> [] | Some xs \<Rightarrow> xs);
          nutrition_input = (case nutrition product of None \<Rightarrow> [] | Some d \<Rightarrow> d);
          product_name = (case product_name product of None \<Rightarrow> ''Unnamed Product'' | Some n \<Rightarrow> n)
      in case detect_ingredients ratio ingredients_input ingredient_safety_df ingredients_list of
           Inl e \<Rightarrow> Inl e
         | Inr ingredient_analysis \<Rightarrow>
             (case evaluate_nutrition nutrition_input nutrition_df of
                Inl e \<Rightarrow> Inl e
              | Inr (nutrition_pros, nutrition_cons) \<Rightarrow>
                  Inr [(''product_name'', PStr product_name),
                       (''ingredient_analysis'', PFindings ingredient_analysis),
                       (''nutrition_pros'', PStrList nutrition_pros),
                       (''nutrition_cons'', PStrList nutrition_cons)]))"

section \<open>model3: scoring the result of the orchestrator\<close>

text \<open>
  \<open>d.get(k, default)\<close>, Python's truth value and \<open>or\<close>. A value of a type the scoring
  functions cannot use is a \<open>TypeError\<close>.
\<close>

definition dict_get :: "(string \<times> pyval) list \<Rightarrow> string \<Rightarrow> pyval \<Rightarrow> pyval" where
  "dict_get d k dflt = (case map_of d k of None \<Rightarrow> dflt | Some v \<Rightarrow> v)"

fun truthy :: "pyval \<Rightarrow> bool" where
  "truthy PNone = False"
| "truthy (PStr s) = (s \<noteq> [])"
| "truthy (PStrList xs) = (xs \<noteq> [])"
| "truthy (PFindings fs) = (fs \<noteq> [])"
| "truthy (PNutrition d) = (d \<noteq> [])"

definition py_or :: "pyval \<Rightarrow> pyval \<Rightarrow> pyval" where
  "py_or a b = (if truthy a then a else b)"

fun as_findings :: "pyval \<Rightarrow> error + finding list" where
  "as_findings (PFindings fs) = Inr fs"
| "as_findings PNone = Inr []"
| "as_findings v = Inl TypeError"

fun as_nutrition :: "pyval \<Rightarrow> error + nutrition_info option" where
  "as_nutrition (PNutrition d) = Inr (Some d)"
| "as_nutrition v = (if truthy v then Inl TypeError else Inr None)"

fun as_strings :: "pyval \<Rightarrow> error + string list option" where
  "as_strings (PStrList xs) = Inr (Some xs)"
| "as_strings PNone = Inr None"
| "as_strings v = Inl TypeError"

definition compute_safety_score_from_model2_output ::
  "(string \<times> pyval) list \<Rightarrow> rat \<Rightarrow> rat \<Rightarrow> error + rat" where
  "compute_safety_score_from_model2_output model2_output weight_ingredient weight_nutrition =
     (let ingredient_analysis = dict_get model2_output ''ingredient_analysis'' (PFindings []);
          nutrition_info =
            py_or (py_or (dict_get model2_output ''nutrition'' PNone)
                         (dict_get model2_output ''nutrition_info'' PNone)) PNone;
          pros = dict_get model2_output ''nutrition_pros'' (PStrList []);
          cons = dict_get model2_output ''nutrition_cons'' (PStrList [])
      in case as_findings ingredient_analysis of
           Inl e \<Rightarrow> Inl e
         | Inr ia \<Rightarrow>
             (case as_nutrition nutrition_info of
                Inl e \<Rightarrow> Inl e
              | Inr ni \<Rightarrow>
                  (case as_strings pros of
                     Inl e \<Rightarrow> Inl e
                   | Inr np \<Rightarrow>
                       (case as_strings cons of
                          Inl e \<Rightarrow> Inl e
                        | Inr nc \<Rightarrow>
                            compute_safety_score ia ni np nc weight_ingredient weight_nutrition))))"

section \<open>Specification-side notions\<close>

text \<open>The tiers of the specification and the status strings that carry them.\<close>

datatype tier = Safe | Caution | Unsafe | Unknown

fun tier_name :: "tier \<Rightarrow> string" where
  "tier_name Safe = ''safe''"
| "tier_name Caution = ''caution''"
| "tier_name Unsafe = ''unsafe''"
| "tier_name Unknown = ''unknown''"

fun tier_weight :: "tier \<Rightarrow> int" where
  "tier_weight Safe = 1"
| "tier_weight Caution = 0"
| "tier_weight Unsafe = - 1"
| "tier_weight Unknown = 0"

text \<open>
  The ingredient formula of the specification on the exact numbers, \<open>((raw + n) / (2n)) * 10\<close>,
  and the nearest hundredth of a number.
\<close>

definition ingredient_formula :: "tier list \<Rightarrow> rat" where
  "ingredient_formula ts =
     of_int (sum_list (map tier_weight ts) + int (length ts)) / of_int (2 * int (length ts)) * 10"

definition nearest_hundredth :: "rat \<Rightarrow> rat" where
  "nearest_hundredth x = of_int (round_half_even (x * 100)) / 100"

text \<open>
  Words joined by single spaces, and the normaliser as the specification words it: characters
  outside \<open>[a-z0-9\s]\<close> are removed.
\<close>

fun join_sp :: "string list \<Rightarrow> string" where
  "join_sp [] = []"
| "join_sp [w] = w"
| "join_sp (w # v # ws) = w @ CHR '' '' # join_sp (v # ws)"

definition normalize_spec :: "string \<Rightarrow> string" where
  "normalize_spec text =
     strip (sub_spaces (filter (\<lambda>c. is_lower_alnum c \<or> is_space c) (lower text)))"

text \<open>
  The matcher as the specification words it: the similarity of the normalised input and a
  normalised catalogue name, the names sharing a word with the input, and the three phases.
\<close>

definition score_of :: "(string \<Rightarrow> string \<Rightarrow> rat) \<Rightarrow> string \<Rightarrow> string \<Rightarrow> rat" where
  "score_of ratio x r = ratio (clean_text x) (clean_text r)"

definition shares_token :: "string \<Rightarrow> string \<Rightarrow> bool" where
  "shares_token x r = (set (split (clean_text x)) \<inter> set (split (clean_text r)) \<noteq> {})"

definition match_spec ::
  "(string \<Rightarrow> string \<Rightarrow> rat) \<Rightarrow> string \<Rightarrow> string list \<Rightarrow> rat \<Rightarrow> string option" where
  "match_spec ratio x catalog threshold =
     (if catalog \<noteq> [] \<and> threshold \<le> Max (set (map (score_of ratio x) catalog))
      then find (\<lambda>r. score_of ratio x r = Max (set (map (score_of ratio x) catalog))) catalog
      else (case find (shares_token x) catalog of
              Some r \<Rightarrow> Some r
            | None \<Rightarrow> Some x))"

text \<open>
  The nutrient evaluator as the specification words it: every table row whose nutrient is
  present with a value falls in one band and gives one finding, a pro or a con.
\<close>

datatype band = Low | High | Balanced

definition band_of :: "rat \<Rightarrow> rat \<Rightarrow> rat \<Rightarrow> band" where
  "band_of low high v = (if v < low then Low else if v > high then High else Balanced)"

definition row_band :: "threshold_row \<Rightarrow> rat \<Rightarrow> band" where
  "row_band row v = band_of (fl (low_threshold row)) (fl (high_threshold row)) v"

datatype nutrient_finding = Pro string | Con string

fun render :: "threshold_row \<Rightarrow> band \<Rightarrow> nutrient_finding" where
  "render row Low = Con (''Low '' @ nutrient row @ '' ('' @ note_text row @ '')'')"
| "render row High = Con (''High '' @ nutrient row @ '' ('' @ note_text row @ '')'')"
| "render row Balanced = Pro (''Balanced '' @ nutrient row)"

fun pro_text :: "nutrient_finding \<Rightarrow> string option" where
  "pro_text (Pro s) = Some s"
| "pro_text (Con s) = None"

fun con_text :: "nutrient_finding \<Rightarrow> string option" where
  "con_text (Pro s) = None"
| "con_text (Con s) = Some s"

definition present :: "nutrition_input \<Rightarrow> threshold_row \<Rightarrow> bool" where
  "present ni row = (case map_of ni (nutrient row) of None \<Rightarrow> False | Some v \<Rightarrow> v \<noteq> NNull)"

definition value_of :: "nutrition_input \<Rightarrow> threshold_row \<Rightarrow> rat" where
  "value_of ni row =
     (case map_of ni (nutrient row) of
        None \<Rightarrow> 0
      | Some v \<Rightarrow> (case coerce v of Inl e \<Rightarrow> 0 | Inr x \<Rightarrow> x))"

definition parses :: "nutrition_input \<Rightarrow> threshold_row \<Rightarrow> bool" where
  "parses ni row =
     (case map_of ni (nutrient row) of
        None \<Rightarrow> True
      | Some v \<Rightarrow> v = NNull \<or> (case coerce v of Inl e \<Rightarrow> False | Inr x \<Rightarrow> True))"

definition findings_spec :: "nutrition_input \<Rightarrow> threshold_row list \<Rightarrow> nutrient_finding list" where
  "findings_spec ni table =
     map (\<lambda>row. render row (row_band row (value_of ni row))) (filter (present ni) table)"

text \<open>
  The ingredient strings of a product record, and the fallback nutrition score of the
  specification on the exact numbers: \<open>clamp(5.0 + 0.5 * |pros| - 0.7 * |cons|, 0, 10)\<close>.
\<close>

definition ingredients_of :: "product_json \<Rightarrow> string list" where
  "ingredients_of product = (case ingredients product of None \<Rightarrow> [] | Some xs \<Rightarrow> xs)"

definition pros_cons_formula :: "nat \<Rightarrow> nat \<Rightarrow> rat" where
  "pros_cons_formula p c = max 0 (min 10 (5 + of_nat p / 2 - 7 * of_nat c / 10))"

section \<open>Properties of double-precision rounding\<close>

lemma round_half_even_of_int [simp]: "round_half_even (of_int k) = k"
  by (simp add: round_half_even_def)

lemma round_half_even_zero [simp]: "round_half_even 0 = 0"
  by (simp add: round_half_even_def)

lemma round_half_even_floor: "\<lfloor>x\<rfloor> \<le> round_half_even x \<and> round_half_even x \<le> \<lfloor>x\<rfloor> + 1"
  by (simp add: round_half_even_def Let_def)

lemma round_half_even_mono: "x \<le> y \<Longrightarrow> round_half_even x \<le> round_half_even y"
proof -
  assume le: "x \<le> y"
  have fl: "\<lfloor>x\<rfloor> \<le> \<lfloor>y\<rfloor>" using le by (rule floor_mono)
  show ?thesis
  proof (cases "\<lfloor>x\<rfloor> = \<lfloor>y\<rfloor>")
    case True
    then have "x - of_int \<lfloor>x\<rfloor> \<le> y - of_int \<lfloor>y\<rfloor>" using le by simp
    then show ?thesis unfolding round_half_even_def Let_def True by auto
  next
    case False
    then have "\<lfloor>x\<rfloor> + 1 \<le> \<lfloor>y\<rfloor>" using fl by simp
    then show ?thesis
      using round_half_even_floor[of x] round_half_even_floor[of y] by linarith
  qed
qed

lemma round_half_even_err: "\<bar>of_int (round_half_even x) - x\<bar> \<le> 1 / 2"
proof -
  have "of_int \<lfloor>x\<rfloor> \<le> x" "x < of_int \<lfloor>x\<rfloor> + 1" by linarith+
  then show ?thesis unfolding round_half_even_def Let_def by (auto simp: abs_le_iff)
qed

lemma round_half_even_minus: "round_half_even (- x) = - round_half_even x"
proof (cases "x = of_int \<lfloor>x\<rfloor>")
  case True
  then obtain k where "x = of_int k" ..
  then have "- x = of_int (- k)" by simp
  then show ?thesis using \<open>x = of_int k\<close> by (simp only: round_half_even_of_int)
next
  case False
  have b: "of_int \<lfloor>x\<rfloor> \<le> x" "x < of_int \<lfloor>x\<rfloor> + 1" by linarith+
  have lt: "of_int \<lfloor>x\<rfloor> < x" using False of_int_floor_le[of x] by (auto simp: less_le)
  have fm: "\<lfloor>- x\<rfloor> = - \<lfloor>x\<rfloor> - 1"
    by (rule floor_unique) (use lt b in simp_all)
  have e: "even \<lfloor>- x\<rfloor> \<longleftrightarrow> odd \<lfloor>x\<rfloor>" unfolding fm by simp
  have d: "- x - of_int \<lfloor>- x\<rfloor> = 1 - (x - of_int \<lfloor>x\<rfloor>)" unfolding fm by simp
  define d0 where "d0 = x - of_int \<lfloor>x\<rfloor>"
  show ?thesis
    unfolding round_half_even_def Let_def d e d0_def[symmetric]
    by (auto simp: fm)
qed

lemma round_half_even_near:
  "\<bar>x - of_int k\<bar> < 1 / 2 \<Longrightarrow> round_half_even x = k"
proof -
  assume a: "\<bar>x - of_int k\<bar> < 1 / 2"
  consider "of_int k \<le> x" | "x < of_int k" by linarith
  then show ?thesis
  proof cases
    case 1
    then have "\<lfloor>x\<rfloor> = k" using a by (intro floor_unique) (simp_all add: abs_less_iff)
    then show ?thesis using a 1 unfolding round_half_even_def Let_def by (auto simp: abs_less_iff)
  next
    case 2
    then have "\<lfloor>x\<rfloor> = k - 1" using a by (intro floor_unique) (simp_all add: abs_less_iff)
    then show ?thesis using a 2 unfolding round_half_even_def Let_def by (auto simp: abs_less_iff)
  qed
qed

lemma binade_bounds:
  assumes "x \<noteq> 0"
  shows "2 powi binade x \<le> \<bar>x\<bar> \<and> \<bar>x\<bar> < 2 powi (binade x + 1)"
proof -
  obtain a b where q: "quotient_of \<bar>x\<bar> = (a, b)" by (cases "quotient_of \<bar>x\<bar>")
  have b: "0 < b" using q by (rule quotient_of_denom_pos)
  have x: "\<bar>x\<bar> = of_int a / of_int b" using q by (rule quotient_of_div)
  have "0 < \<bar>x\<bar>" using assms by simp
  then have a: "0 < a" using b unfolding x by (simp add: zero_less_divide_iff)
  define la where "la = bitlen a"
  define lb where "lb = bitlen b"
  have la: "1 \<le> la" using a bitlen_eq_zero_iff[of a] bitlen_nonneg[of a] by (simp add: la_def)
  have lb: "1 \<le> lb" using b bitlen_eq_zero_iff[of b] bitlen_nonneg[of b] by (simp add: lb_def)
  have ba: "2 ^ nat (la - 1) \<le> a" "a < 2 ^ nat la" using bitlen_bounds[OF a] by (simp_all add: la_def)
  have bb: "2 ^ nat (lb - 1) \<le> b" "b < 2 ^ nat lb" using bitlen_bounds[OF b] by (simp_all add: lb_def)
  have ra: "(2::rat) powi (la - 1) \<le> of_int a" "(of_int a :: rat) < 2 powi la"
  proof -
    have "(of_int (2 ^ nat (la - 1)) :: rat) \<le> of_int a" using ba(1) by (simp only: of_int_le_iff)
    then show "(2::rat) powi (la - 1) \<le> of_int a" using la by (simp add: power_int_nonneg_exp)
    have "(of_int a :: rat) < of_int (2 ^ nat la)" using ba(2) by (simp only: of_int_less_iff)
    then show "(of_int a :: rat) < 2 powi la" using la by (simp add: power_int_nonneg_exp)
  qed
  have rb: "(2::rat) powi (lb - 1) \<le> of_int b" "(of_int b :: rat) < 2 powi lb"
  proof -
    have "(of_int (2 ^ nat (lb - 1)) :: rat) \<le> of_int b" using bb(1) by (simp only: of_int_le_iff)
    then show "(2::rat) powi (lb - 1) \<le> of_int b" using lb by (simp add: power_int_nonneg_exp)
    have "(of_int b :: rat) < of_int (2 ^ nat lb)" using bb(2) by (simp only: of_int_less_iff)
    then show "(of_int b :: rat) < 2 powi lb" using lb by (simp add: power_int_nonneg_exp)
  qed
  have bpos: "(0::rat) < of_int b" using b by simp
  have apos: "(0::rat) < of_int a" using a by simp
  have up: "\<bar>x\<bar> < 2 powi (la - lb + 1)"
  proof -
    have "\<bar>x\<bar> < 2 powi la / of_int b" unfolding x using ra(2) bpos by (simp add: divide_strict_right_mono)
    also have "\<dots> \<le> 2 powi la / 2 powi (lb - 1)"
      using rb(1) bpos by (intro divide_left_mono) (auto intro: mult_pos_pos)
    also have "\<dots> = 2 powi (la - (lb - 1))" by (simp add: power_int_diff)
    finally show ?thesis by (simp add: algebra_simps)
  qed
  have lo: "2 powi (la - lb - 1) < \<bar>x\<bar>"
  proof -
    have "(2::rat) powi (la - lb - 1) = 2 powi ((la - 1) - lb)" by (simp add: algebra_simps)
    also have "\<dots> = 2 powi (la - 1) / 2 powi lb" by (simp add: power_int_diff)
    also have "\<dots> < 2 powi (la - 1) / of_int b"
      using rb(2) bpos by (intro divide_strict_left_mono) simp_all
    also have "\<dots> \<le> \<bar>x\<bar>" unfolding x using ra(1) bpos by (simp add: divide_right_mono)
    finally show ?thesis .
  qed
  show ?thesis
  proof (cases "2 powi (la - lb) \<le> \<bar>x\<bar>")
    case True
    then have "binade x = la - lb" by (simp add: binade_def q la_def lb_def)
    then show ?thesis using True up by simp
  next
    case False
    then have "binade x = la - lb - 1" by (simp add: binade_def q la_def lb_def)
    then show ?thesis using False lo by simp
  qed
qed

lemma pow2_less_imp: "(2::rat) powi m < 2 powi n \<Longrightarrow> m < n"
proof (rule ccontr)
  assume a: "(2::rat) powi m < 2 powi n" "\<not> m < n"
  then have "(2::rat) powi n \<le> 2 powi m" by (intro power_int_increasing) simp_all
  with a show False by simp
qed

lemma binade_unique:
  assumes "2 powi k \<le> \<bar>x\<bar>" "\<bar>x\<bar> < 2 powi (k + 1)"
  shows "binade x = k"
proof -
  have nz: "x \<noteq> 0"
  proof
    assume "x = 0"
    then have "(2::rat) powi k \<le> 0" using assms(1) by simp
    moreover have "(0::rat) < 2 powi k" by simp
    ultimately show False by linarith
  qed
  note b = binade_bounds[OF nz]
  have "(2::rat) powi binade x < 2 powi (k + 1)" using b assms by linarith
  then have 1: "binade x < k + 1" by (rule pow2_less_imp)
  have "(2::rat) powi k < 2 powi (binade x + 1)" using b assms by linarith
  then have 2: "k < binade x + 1" by (rule pow2_less_imp)
  show ?thesis using 1 2 by simp
qed

lemma binade_le:
  assumes "x \<noteq> 0" "\<bar>x\<bar> < 2 powi (k + 1)"
  shows "binade x \<le> k"
proof -
  have "(2::rat) powi binade x < 2 powi (k + 1)" using binade_bounds[OF assms(1)] assms(2) by linarith
  then have "binade x < k + 1" by (rule pow2_less_imp)
  then show ?thesis by simp
qed

lemma binade_ge:
  assumes "2 powi k \<le> \<bar>x\<bar>"
  shows "k \<le> binade x"
proof -
  have nz: "x \<noteq> 0"
  proof
    assume "x = 0"
    then have "(2::rat) powi k \<le> 0" using assms(1) by simp
    moreover have "(0::rat) < 2 powi k" by simp
    ultimately show False by linarith
  qed
  have "(2::rat) powi k < 2 powi (binade x + 1)" using binade_bounds[OF nz] assms by linarith
  then have "k < binade x + 1" by (rule pow2_less_imp)
  then show ?thesis by simp
qed

lemma binade_mono:
  assumes "x \<noteq> 0" "\<bar>x\<bar> \<le> \<bar>y\<bar>"
  shows "binade x \<le> binade y"
  using binade_ge[of "binade x" y] binade_bounds[OF assms(1)] assms(2) by linarith

lemma binade_minus [simp]: "binade (- x) = binade x"
  by (simp add: binade_def)

lemma ulp_exp_minus [simp]: "ulp_exp (- x) = ulp_exp x"
  by (simp add: ulp_exp_def)

lemma fl_minus: "fl (- x) = - fl x"
  by (simp add: fl_def round_half_even_minus)

lemma fl_zero [simp]: "fl 0 = 0"
  by (simp add: fl_def)

lemma fl_nonneg: "0 \<le> x \<Longrightarrow> 0 \<le> fl x"
proof -
  assume "0 \<le> x"
  then have "0 \<le> x / 2 powi ulp_exp x" by simp
  then have "round_half_even 0 \<le> round_half_even (x / 2 powi ulp_exp x)"
    by (rule round_half_even_mono)
  then have "0 \<le> round_half_even (x / 2 powi ulp_exp x)" using round_half_even_of_int[of 0] by simp
  then show ?thesis by (simp add: fl_def)
qed

lemma fl_nonpos: "x \<le> 0 \<Longrightarrow> fl x \<le> 0"
  using fl_nonneg[of "- x"] by (simp add: fl_minus)

text \<open>The rule that evaluates \<open>fl\<close> at a number whose binade is given.\<close>

lemma fl_eq:
  assumes "2 powi k \<le> \<bar>x\<bar>" "\<bar>x\<bar> < 2 powi (k + 1)"
  shows "fl x = of_int (round_half_even (x / 2 powi max (k - 52) (- 1074))) * 2 powi max (k - 52) (- 1074)"
  using binade_unique[OF assms] by (simp add: fl_def ulp_exp_def)

lemma fl_err: "\<bar>fl x - x\<bar> \<le> 2 powi ulp_exp x / 2"
proof -
  define u where "u = (2::rat) powi ulp_exp x"
  have u: "0 < u" by (simp add: u_def)
  have "fl x - x = (of_int (round_half_even (x / u)) - x / u) * u"
    using u by (simp add: fl_def u_def field_simps)
  then have "\<bar>fl x - x\<bar> = \<bar>of_int (round_half_even (x / u)) - x / u\<bar> * u"
    using u by (simp add: abs_mult)
  also have "\<dots> \<le> 1 / 2 * u" using round_half_even_err[of "x / u"] u by (intro mult_right_mono) simp_all
  finally show ?thesis by (simp add: u_def)
qed

lemma fl_abs_err:
  assumes "\<bar>x\<bar> < 2 powi (k + 1)" "- 1022 \<le> k"
  shows "\<bar>fl x - x\<bar> \<le> 2 powi (k - 53)"
proof (cases "x = 0")
  case True then show ?thesis by simp
next
  case False
  have "binade x \<le> k" using binade_le[OF False assms(1)] .
  then have "ulp_exp x \<le> k - 52" using assms(2) by (simp add: ulp_exp_def)
  then have "(2::rat) powi ulp_exp x \<le> 2 powi (k - 52)" by (intro power_int_increasing) simp_all
  also have "(2::rat) powi (k - 52) = 2 powi (k - 53) * 2"
    using power_int_add[of "2::rat" "k - 53" 1] by (simp add: algebra_simps)
  finally show ?thesis using fl_err[of x] by linarith
qed

lemma fl_mono_pos:
  assumes "0 < x" "x \<le> y"
  shows "fl x \<le> fl y"
proof -
  have y: "0 < y" using assms by simp
  have nz: "x \<noteq> 0" "y \<noteq> 0" using assms by auto
  have b: "binade x \<le> binade y" using binade_mono[of x y] assms by simp
  define ux where "ux = ulp_exp x"
  define uy where "uy = ulp_exp y"
  have u: "ux \<le> uy" using b by (simp add: ux_def uy_def ulp_exp_def)
  show ?thesis
  proof (cases "ux = uy")
    case True
    have "x / 2 powi ux \<le> y / 2 powi ux" using assms by (simp add: divide_right_mono)
    then have "round_half_even (x / 2 powi ux) \<le> round_half_even (y / 2 powi ux)"
      by (rule round_half_even_mono)
    then have "(of_int (round_half_even (x / 2 powi ux)) :: rat) \<le> of_int (round_half_even (y / 2 powi ux))"
      by simp
    then show ?thesis unfolding fl_def ux_def[symmetric] uy_def[symmetric] True[symmetric]
      by (intro mult_right_mono) simp_all
  next
    case False
    then have lt: "ux + 1 \<le> uy" using u by simp
    have uyb: "uy = binade y - 52" using lt by (auto simp: ux_def uy_def ulp_exp_def)
    have uxb: "binade x - 52 \<le> ux" by (simp add: ux_def ulp_exp_def)
    have "x < 2 powi (binade x + 1)" using binade_bounds[OF nz(1)] assms by simp
    also have "\<dots> \<le> 2 powi (ux + 53)" using uxb by (intro power_int_increasing) simp_all
    also have "\<dots> = 2 powi 53 * 2 powi ux" by (simp add: power_int_add algebra_simps)
    finally have "x / 2 powi ux \<le> 2 powi 53" by (simp add: divide_le_eq)
    then have "x / 2 powi ux \<le> of_int (2 ^ 53)" by simp
    then have "round_half_even (x / 2 powi ux) \<le> round_half_even (of_int (2 ^ 53))"
      by (rule round_half_even_mono)
    then have "round_half_even (x / 2 powi ux) \<le> 2 ^ 53" by (simp only: round_half_even_of_int)
    then have "(of_int (round_half_even (x / 2 powi ux)) :: rat) \<le> of_int (2 ^ 53)"
      by (simp only: of_int_le_iff)
    then have "fl x \<le> of_int (2 ^ 53) * 2 powi ux"
      unfolding fl_def ux_def[symmetric] by (intro mult_right_mono) simp_all
    also have "\<dots> = 2 powi (ux + 53)" by (simp add: power_int_add algebra_simps)
    also have "\<dots> \<le> 2 powi (uy + 52)" using lt by (intro power_int_increasing) simp_all
    finally have 1: "fl x \<le> 2 powi (uy + 52)" .
    have "(2::rat) powi (uy + 52) = 2 powi binade y" by (simp add: uyb)
    also have "\<dots> \<le> y" using binade_bounds[OF nz(2)] y by simp
    finally have "2 powi 52 * 2 powi uy \<le> y" by (simp add: power_int_add algebra_simps)
    then have "of_int (2 ^ 52) \<le> y / 2 powi uy" by (simp add: le_divide_eq)
    then have "round_half_even (of_int (2 ^ 52)) \<le> round_half_even (y / 2 powi uy)"
      by (rule round_half_even_mono)
    then have "2 ^ 52 \<le> round_half_even (y / 2 powi uy)" by (simp only: round_half_even_of_int)
    then have "(of_int (2 ^ 52) :: rat) \<le> of_int (round_half_even (y / 2 powi uy))"
      by (simp only: of_int_le_iff)
    then have "of_int (2 ^ 52) * 2 powi uy \<le> fl y"
      unfolding fl_def uy_def[symmetric] by (intro mult_right_mono) simp_all
    then have 2: "2 powi (uy + 52) \<le> fl y" by (simp add: power_int_add algebra_simps)
    show ?thesis using 1 2 by linarith
  qed
qed

lemma fl_mono: "x \<le> y \<Longrightarrow> fl x \<le> fl y"
proof -
  assume le: "x \<le> y"
  consider "0 < x" | "x \<le> 0" "0 \<le> y" | "y < 0" by linarith
  then show ?thesis
  proof cases
    case 1 then show ?thesis using fl_mono_pos le by simp
  next
    case 2 then show ?thesis using fl_nonpos[of x] fl_nonneg[of y] by linarith
  next
    case 3
    then have "fl (- y) \<le> fl (- x)" using le by (intro fl_mono_pos) simp_all
    then show ?thesis by (simp add: fl_minus)
  qed
qed

text \<open>A number with at most 53 significant bits and an exponent in range is a double.\<close>

lemma fl_representable:
  assumes "\<bar>m\<bar> \<le> 2 ^ 53" "- 1074 \<le> e"
  shows "fl (of_int m * 2 powi e) = of_int m * 2 powi e"
proof (cases "m = 0")
  case True then show ?thesis by simp
next
  case False
  define y :: rat where "y = of_int m * 2 powi e"
  have nz: "y \<noteq> 0" using False by (simp add: y_def)
  have ay: "\<bar>y\<bar> = of_int \<bar>m\<bar> * 2 powi e" by (simp add: y_def abs_mult)
  have int: "\<exists>j::int. y / 2 powi ulp_exp y = of_int j"
  proof (cases "\<bar>m\<bar> = 2 ^ 53")
    case True
    have "\<bar>y\<bar> = 2 powi (e + 53)" unfolding ay True by (simp add: power_int_add algebra_simps)
    then have "binade y = e + 53"
      by (intro binade_unique) (simp_all add: power_int_strict_increasing)
    then have u: "ulp_exp y = e + 1" using assms(2) by (simp add: ulp_exp_def)
    have "(2::rat) powi (e + 1) = 2 powi e * 2" by (simp add: power_int_add)
    then have "y / 2 powi ulp_exp y = y / (2 powi e * 2)" by (simp add: u)
    also have "\<dots> = of_int m / 2" by (simp add: y_def)
    finally have "y / 2 powi ulp_exp y = of_int m / 2" .
    moreover have "even m" using True
      by (metis even_abs_add_iff even_add even_numeral even_power zero_less_numeral)
    ultimately obtain b where "m = 2 * b" "y / 2 powi ulp_exp y = of_int m / 2"
      by (auto elim!: evenE)
    then have "y / 2 powi ulp_exp y = of_int b" by simp
    then show ?thesis by blast
  next
    case ne: False
    then have "\<bar>m\<bar> < 2 ^ 53" using assms(1) by simp
    then have "(of_int \<bar>m\<bar> :: rat) < of_int (2 ^ 53)" by (simp only: of_int_less_iff)
    then have "\<bar>y\<bar> < 2 ^ 53 * 2 powi e" unfolding ay by (intro mult_strict_right_mono) simp_all
    also have "\<dots> = 2 powi (e + 52 + 1)" by (simp add: power_int_add algebra_simps)
    finally have "binade y \<le> e + 52" using binade_le[OF nz] by blast
    then have u: "ulp_exp y \<le> e" using assms(2) by (simp add: ulp_exp_def)
    define d where "d = nat (e - ulp_exp y)"
    have "e = ulp_exp y + int d" using u by (simp add: d_def)
    then have p: "(2::rat) powi e = 2 powi ulp_exp y * 2 ^ d"
      by (metis power_int_add power_int_of_nat zero_neq_numeral)
    have "y = of_int m * (2 powi ulp_exp y * 2 ^ d)" using p by (simp add: y_def)
    then have "y / 2 powi ulp_exp y = of_int m * (2 powi ulp_exp y * 2 ^ d) / 2 powi ulp_exp y"
      by simp
    also have "\<dots> = of_int (m * 2 ^ d)" by simp
    finally have "y / 2 powi ulp_exp y = of_int (m * 2 ^ d)" .
    then show ?thesis by blast
  qed
  then obtain j :: int where j: "y / 2 powi ulp_exp y = of_int j" ..
  have "fl y = of_int j * 2 powi ulp_exp y" unfolding fl_def j by simp
  also have "\<dots> = y" using j by (simp add: field_simps)
  finally show ?thesis by (simp add: y_def)
qed

lemma fl_signif: "\<bar>round_half_even (x / 2 powi ulp_exp x)\<bar> \<le> 2 ^ 53"
proof (cases "x = 0")
  case True then show ?thesis by simp
next
  case False
  define u where "u = ulp_exp x"
  have ub: "binade x - 52 \<le> u" by (simp add: u_def ulp_exp_def)
  have "\<bar>x\<bar> < 2 powi (binade x + 1)" using binade_bounds[OF False] by simp
  also have "\<dots> \<le> 2 powi (u + 53)" using ub by (intro power_int_increasing) simp_all
  also have "\<dots> = 2 powi 53 * 2 powi u" by (simp add: power_int_add algebra_simps)
  finally have "\<bar>x\<bar> / 2 powi u \<le> 2 powi 53" by (simp add: divide_le_eq)
  then have b: "\<bar>x / 2 powi u\<bar> \<le> of_int (2 ^ 53)" by (simp add: abs_divide)
  then have "x / 2 powi u \<le> of_int (2 ^ 53)" "of_int (- (2 ^ 53)) \<le> x / 2 powi u"
    unfolding abs_le_iff by auto
  then have "round_half_even (x / 2 powi u) \<le> round_half_even (of_int (2 ^ 53))"
    "round_half_even (of_int (- (2 ^ 53))) \<le> round_half_even (x / 2 powi u)"
    by (simp_all only: round_half_even_mono)
  then show ?thesis unfolding u_def[symmetric] by (simp only: round_half_even_of_int)
qed

lemma ulp_exp_ge: "- 1074 \<le> ulp_exp x"
  by (simp add: ulp_exp_def)

lemma fl_idem [simp]: "fl (fl x) = fl x"
  unfolding fl_def[of x] by (rule fl_representable[OF fl_signif ulp_exp_ge])

lemma fl_of_int: "\<bar>m\<bar> \<le> 2 ^ 53 \<Longrightarrow> fl (of_int m) = of_int m"
  using fl_representable[of m 0] by simp

lemma fl_numerals [simp]: "fl 1 = 1" "fl 5 = 5" "fl 10 = 10"
  using fl_of_int[of 1] fl_of_int[of 5] fl_of_int[of 10] by simp_all

lemma fl_range: "0 \<le> x \<Longrightarrow> x \<le> 10 \<Longrightarrow> 0 \<le> fl x \<and> fl x \<le> 10"
  using fl_mono[of x 10] fl_nonneg[of x] by simp

section \<open>Properties of the score aggregator\<close>

lemma round_half_even_numeral [simp]: "round_half_even (numeral n) = numeral n"
  using round_half_even_of_int[of "numeral n"] by simp

lemma round_half_even_le:
  assumes "x < of_int k + 1 / 2"
  shows "round_half_even x \<le> k"
proof (cases "x \<le> of_int k")
  case True
  then have "round_half_even x \<le> round_half_even (of_int k)" by (rule round_half_even_mono)
  then show ?thesis by (simp only: round_half_even_of_int)
next
  case False
  then have "\<bar>x - of_int k\<bar> < 1 / 2" using assms by (simp add: abs_less_iff)
  then show ?thesis using round_half_even_near by simp
qed

lemma round_half_even_ge:
  assumes "of_int k - 1 / 2 < x"
  shows "k \<le> round_half_even x"
proof (cases "of_int k \<le> x")
  case True
  then have "round_half_even (of_int k) \<le> round_half_even x" by (rule round_half_even_mono)
  then show ?thesis by (simp only: round_half_even_of_int)
next
  case False
  then have "\<bar>x - of_int k\<bar> < 1 / 2" using assms by (simp add: abs_less_iff)
  then show ?thesis using round_half_even_near by simp
qed

lemma fl_rel_err:
  assumes "2 powi (- 1022) \<le> \<bar>x\<bar>"
  shows "\<bar>fl x - x\<bar> \<le> \<bar>x\<bar> / 2 ^ 53"
proof -
  have "(0::rat) < 2 powi (- 1022)" by (rule zero_less_power_int) simp
  then have nz: "x \<noteq> 0" using assms by auto
  have "- 1022 \<le> binade x" using binade_ge[OF assms] .
  then have u: "ulp_exp x = binade x - 52" by (simp add: ulp_exp_def)
  have "(2::rat) powi binade x = 2 powi (ulp_exp x + 52)" by (simp add: u)
  also have "\<dots> = 2 powi ulp_exp x * 2 ^ 52" by (simp add: power_int_add)
  finally have "(2::rat) powi ulp_exp x / 2 = 2 powi binade x / 2 ^ 53" by simp
  also have "\<dots> \<le> \<bar>x\<bar> / 2 ^ 53" using binade_bounds[OF nz] by (simp add: divide_right_mono)
  finally show ?thesis using fl_err[of x] by linarith
qed

lemma hundredths_range: "0 \<le> x \<Longrightarrow> x \<le> 10 \<Longrightarrow> 0 \<le> hundredths x \<and> hundredths x \<le> 1000"
proof -
  assume a: "0 \<le> x" "x \<le> 10"
  have "round_half_even 0 \<le> round_half_even (x * 100)"
    by (rule round_half_even_mono) (use a in simp)
  moreover have "round_half_even (x * 100) \<le> round_half_even 1000"
    by (rule round_half_even_mono) (use a in simp)
  ultimately show ?thesis unfolding hundredths_def by simp
qed

lemma hundredth_range: "0 \<le> k \<Longrightarrow> k \<le> 1000 \<Longrightarrow> (0::rat) \<le> of_int k / 100 \<and> (of_int k :: rat) / 100 \<le> 10"
proof -
  assume "0 \<le> k" "k \<le> 1000"
  then have "(0::rat) \<le> of_int k" "(of_int k :: rat) \<le> of_int 1000" by (simp_all only: of_int_le_iff of_int_0_le_iff)
  then show ?thesis by simp
qed

lemma fl_hundredth_range: "0 \<le> k \<Longrightarrow> k \<le> 1000 \<Longrightarrow> 0 \<le> fl (of_int k / 100) \<and> fl (of_int k / 100) \<le> 10"
  using hundredth_range[of k] fl_range by blast

lemma round2_range: "0 \<le> x \<Longrightarrow> x \<le> 10 \<Longrightarrow> 0 \<le> round2 x \<and> round2 x \<le> 10"
  unfolding round2_def using hundredths_range[of x] fl_hundredth_range by blast

lemma round2_form:
  "0 \<le> x \<Longrightarrow> x \<le> 10 \<Longrightarrow> \<exists>k. 0 \<le> k \<and> k \<le> 1000 \<and> round2 x = fl (of_int k / 100)"
  unfolding round2_def using hundredths_range[of x] by blast

lemma fl_hundredth_err:
  assumes "0 \<le> k" "k \<le> 1000"
  shows "\<bar>fl (of_int k / 100) - of_int k / 100\<bar> \<le> 1 / 2 ^ 50"
proof -
  have "\<bar>(of_int k :: rat) / 100\<bar> < 2 powi (3 + 1)" using hundredth_range[OF assms] by simp
  from fl_abs_err[OF this] have "\<bar>fl (of_int k / 100) - of_int k / 100\<bar> \<le> 2 powi (3 - 53)" by simp
  then show ?thesis by (simp add: power_int_minus_divide)
qed

lemma hundredths_near: "\<bar>x - of_int k / 100\<bar> < 1 / 200 \<Longrightarrow> hundredths x = k"
proof -
  assume "\<bar>x - of_int k / 100\<bar> < 1 / 200"
  then have "\<bar>x * 100 - of_int k\<bar> < 1 / 2" by linarith
  then show ?thesis unfolding hundredths_def by (rule round_half_even_near)
qed

lemma round2_fl_hundredth:
  assumes "0 \<le> k" "k \<le> 1000"
  shows "round2 (fl (of_int k / 100)) = fl (of_int k / 100)"
proof -
  have "(1::rat) / 2 ^ 50 < 1 / 200" by simp
  then have "\<bar>fl (of_int k / 100) - of_int k / 100\<bar> < 1 / 200"
    using fl_hundredth_err[OF assms] by linarith
  then show ?thesis unfolding round2_def by (simp add: hundredths_near)
qed

lemma round2_le:
  assumes "x < of_int k / 100 + 1 / 200"
  shows "round2 x \<le> fl (of_int k / 100)"
proof -
  have "x * 100 < of_int k + 1 / 2" using assms by simp
  then have "hundredths x \<le> k" unfolding hundredths_def by (rule round_half_even_le)
  then have "(of_int (hundredths x) :: rat) \<le> of_int k" by (simp only: of_int_le_iff)
  then have "(of_int (hundredths x) :: rat) / 100 \<le> of_int k / 100" by simp
  then show ?thesis unfolding round2_def by (rule fl_mono)
qed

lemma round2_ge:
  assumes "of_int k / 100 - 1 / 200 < x"
  shows "fl (of_int k / 100) \<le> round2 x"
proof -
  have "of_int k - 1 / 2 < x * 100" using assms by simp
  then have "k \<le> hundredths x" unfolding hundredths_def by (rule round_half_even_ge)
  then have "(of_int k :: rat) \<le> of_int (hundredths x)" by (simp only: of_int_le_iff)
  then have "(of_int k :: rat) / 100 \<le> of_int (hundredths x) / 100" by simp
  then show ?thesis unfolding round2_def by (rule fl_mono)
qed

lemma round2_zero [simp]: "round2 0 = 0"
  by (simp add: round2_def hundredths_def)

lemma raw_loop_sum: "raw_loop xs acc = acc + sum_list (map (\<lambda>f. mapping_get (lower (status f))) xs)"
  by (induction xs arbitrary: acc) simp_all

lemma mapping_get_range: "- 1 \<le> mapping_get k \<and> mapping_get k \<le> 1"
  by (simp add: mapping_get_def)

lemma raw_range: "- int (length xs) \<le> sum_list (map (\<lambda>f. mapping_get (lower (status f))) xs)
   \<and> sum_list (map (\<lambda>f. mapping_get (lower (status f))) xs) \<le> int (length xs)"
proof (induction xs)
  case Nil then show ?case by simp
next
  case (Cons a xs)
  then show ?case using mapping_get_range[of "lower (status a)"] by simp
qed

lemma weight_tier_name: "mapping_get (lower (tier_name t)) = tier_weight t"
  by (cases t) (simp_all add: mapping_get_def lower_def lower_char_def)

lemma raw_of_tiers:
  "map status ia = map tier_name ts \<Longrightarrow>
   sum_list (map (\<lambda>f. mapping_get (lower (status f))) ia) = sum_list (map tier_weight ts)"
proof (induction ia arbitrary: ts)
  case Nil then show ?case by simp
next
  case (Cons a ia)
  then obtain t ts' where ts: "ts = t # ts'" by (cases ts) auto
  with Cons show ?case by (simp add: weight_tier_name)
qed

lemma sum_const_tier: "\<forall>t\<in>set ts. tier_weight t = c \<Longrightarrow> sum_list (map tier_weight ts) = c * int (length ts)"
  by (induction ts) (simp_all add: algebra_simps)

lemma ingredient_score_eq:
  "ia \<noteq> [] \<Longrightarrow> compute_ingredient_score ia =
     Inr (round2 (fl (fl (of_int (sum_list (map (\<lambda>f. mapping_get (lower (status f))) ia) + int (length ia))
            / of_int (2 * int (length ia))) * 10)))"
  by (simp add: compute_ingredient_score_def py_div_def raw_loop_sum Let_def)

text \<open>The double-precision value of the formula, its range and its distance from the exact value.\<close>

lemma ingredient_value:
  assumes "0 < n" "- n \<le> raw" "raw \<le> n"
  shows "0 \<le> fl (fl (of_int (raw + n) / of_int (2 * n)) * 10)
       \<and> fl (fl (of_int (raw + n) / of_int (2 * n)) * 10) \<le> 10
       \<and> \<bar>fl (fl (of_int (raw + n) / of_int (2 * n)) * 10) - of_int (raw + n) / of_int (2 * n) * 10\<bar>
           \<le> 1 / 2 ^ 48"
proof -
  define r :: rat where "r = of_int (raw + n) / of_int (2 * n)"
  define q where "q = fl r"
  have nr: "(0::rat) < of_int n" using assms by simp
  have "(0::rat) \<le> of_int (raw + n)" using assms by simp
  then have r0: "0 \<le> r" using nr by (simp add: r_def)
  have "(of_int (raw + n) :: rat) \<le> of_int (2 * n)" using assms by (simp only: of_int_le_iff)
  then have r1: "r \<le> 1" using nr by (simp add: r_def divide_le_eq)
  have q0: "0 \<le> q" using fl_nonneg[OF r0] by (simp add: q_def)
  have q1: "q \<le> 1" using fl_mono[OF r1] by (simp add: q_def)
  have "\<bar>r\<bar> < 2 powi (0 + 1)" using r0 r1 by simp
  from fl_abs_err[OF this] have e1: "\<bar>q - r\<bar> \<le> 1 / 2 ^ 53"
    by (simp add: q_def power_int_minus_divide)
  have z0: "0 \<le> fl (q * 10)" using q0 by (intro fl_nonneg) simp
  have "q * 10 \<le> 10" using q1 by simp
  then have z1: "fl (q * 10) \<le> 10" using fl_mono[of "q * 10" 10] by simp
  have "\<bar>q * 10\<bar> < 2 powi (3 + 1)" using q0 q1 by simp
  from fl_abs_err[OF this] have e2: "\<bar>fl (q * 10) - q * 10\<bar> \<le> 1 / 2 ^ 50"
    by (simp add: power_int_minus_divide)
  define d1 :: rat where "d1 = 1 / 2 ^ 53"
  define d2 :: rat where "d2 = 1 / 2 ^ 50"
  have "\<bar>fl (q * 10) - r * 10\<bar> \<le> d2 + 10 * d1"
    using e1 e2 unfolding d1_def[symmetric] d2_def[symmetric] by linarith
  also have "\<dots> \<le> 1 / 2 ^ 48" by (simp add: d1_def d2_def)
  finally show ?thesis using z0 z1 unfolding q_def r_def by simp
qed

lemma ingredient_score_range:
  "\<exists>s. compute_ingredient_score ia = Inr s \<and> 0 \<le> s \<and> s \<le> 10"
proof (cases "ia = []")
  case True then show ?thesis by (simp add: compute_ingredient_score_def)
next
  case False
  define raw where "raw = sum_list (map (\<lambda>f. mapping_get (lower (status f))) ia)"
  define n where "n = int (length ia)"
  have n: "0 < n" using False by (simp add: n_def)
  have r: "- n \<le> raw" "raw \<le> n" using raw_range[of ia] by (simp_all add: raw_def n_def)
  from ingredient_value[OF n r] round2_range ingredient_score_eq[OF False]
  show ?thesis unfolding raw_def n_def by blast
qed

lemma ingredient_score_form:
  "\<exists>k. 0 \<le> k \<and> k \<le> 1000 \<and> compute_ingredient_score ia = Inr (fl (of_int k / 100))"
proof (cases "ia = []")
  case True
  have "compute_ingredient_score ia = Inr (fl (of_int 500 / 100))"
    using True by (simp add: compute_ingredient_score_def)
  then show ?thesis by (intro exI[of _ 500]) simp
next
  case False
  define raw where "raw = sum_list (map (\<lambda>f. mapping_get (lower (status f))) ia)"
  define n where "n = int (length ia)"
  have n: "0 < n" using False by (simp add: n_def)
  have r: "- n \<le> raw" "raw \<le> n" using raw_range[of ia] by (simp_all add: raw_def n_def)
  from ingredient_value[OF n r] round2_form ingredient_score_eq[OF False]
  show ?thesis unfolding raw_def n_def by metis
qed

lemma nutrition_values_range:
  "0 \<le> compute_nutrition_score_from_values d \<and> compute_nutrition_score_from_values d \<le> 10"
  unfolding compute_nutrition_score_from_values_def Let_def
  by (simp add: round2_range)

lemma nutrition_values_form:
  "\<exists>k. 0 \<le> k \<and> k \<le> 1000 \<and> compute_nutrition_score_from_values d = fl (of_int k / 100)"
proof (cases "d = []")
  case True
  have "compute_nutrition_score_from_values d = fl (of_int 500 / 100)"
    using True by (simp add: compute_nutrition_score_from_values_def)
  then show ?thesis by (intro exI[of _ 500]) simp
next
  case False
  then show ?thesis
    unfolding compute_nutrition_score_from_values_def Let_def
    by (simp add: round2_form)
qed

lemma nutrition_pros_cons_range:
  "0 \<le> compute_nutrition_score_from_pros_cons p c \<and> compute_nutrition_score_from_pros_cons p c \<le> 10"
  unfolding compute_nutrition_score_from_pros_cons_def Let_def
  by (simp add: round2_range)

lemma nutrition_pros_cons_form:
  "\<exists>k. 0 \<le> k \<and> k \<le> 1000 \<and> compute_nutrition_score_from_pros_cons p c = fl (of_int k / 100)"
  unfolding compute_nutrition_score_from_pros_cons_def Let_def
  by (simp add: round2_form)

lemma nutri_score_of_range:
  "0 \<le> nutri_score_of ni np nc \<and> nutri_score_of ni np nc \<le> 10"
  unfolding nutri_score_of_def Let_def
  using nutrition_values_range nutrition_pros_cons_range by simp

lemma nutri_score_of_form:
  "\<exists>k. 0 \<le> k \<and> k \<le> 1000 \<and> nutri_score_of ni np nc = fl (of_int k / 100)"
  unfolding nutri_score_of_def Let_def
  using nutrition_values_form nutrition_pros_cons_form by simp

lemma normalized_weights_total:
  "normalized_weights wi wn =
     Inr (if overflows (fl wi + fl wn) then (0, 0)
          else (fl (fl wi / (if fl (fl wi + fl wn) \<noteq> 0 then fl (fl wi + fl wn) else 1)),
                fl (fl wn / (if fl (fl wi + fl wn) \<noteq> 0 then fl (fl wi + fl wn) else 1))))"
  by (simp add: normalized_weights_def py_div_def Let_def)

lemma combine_range: "\<exists>f. combine i n wi wn = Inr f \<and> 0 \<le> f \<and> f \<le> 10"
  unfolding combine_def normalized_weights_total
  by (simp add: round2_range Let_def)

lemma not_overflows_small: "\<bar>x\<bar> \<le> 2 ^ 1001 \<Longrightarrow> \<not> overflows x"
  by (simp add: overflows_def)

lemma normalized_weights_zero_one: "normalized_weights 0 1 = Inr (0, 1)"
  by (simp add: normalized_weights_total not_overflows_small)

lemma normalized_weights_zero_zero: "normalized_weights 0 0 = Inr (0, 0)"
  by (simp add: normalized_weights_total)

lemma combine_zero_one:
  assumes "0 \<le> k" "k \<le> 1000"
  shows "combine i (fl (of_int k / 100)) 0 1 = Inr (fl (of_int k / 100))"
  using fl_hundredth_range[OF assms] round2_fl_hundredth[OF assms]
  by (simp add: combine_def normalized_weights_zero_one Let_def)

lemma combine_zero_zero: "combine i n 0 0 = Inr 0"
  by (simp add: combine_def normalized_weights_zero_zero Let_def)

lemma fl_pow2: "- 1074 \<le> e \<Longrightarrow> fl (2 powi e) = 2 powi e"
  using fl_representable[of 1 e] by simp

text \<open>Non-negative weights of ordinary size are normalised to a sum of 1 up to rounding.\<close>

lemma normalized_weights_sum:
  assumes "0 \<le> wi" "0 \<le> wn" "1 / 2 ^ 1000 \<le> wi + wn" "wi + wn \<le> 2 ^ 1000"
  shows "\<exists>a b. normalized_weights wi wn = Inr (a, b) \<and> 0 \<le> a \<and> 0 \<le> b \<and> \<bar>a + b - 1\<bar> \<le> 1 / 2 ^ 50"
proof -
  define W1 where "W1 = fl wi"
  define W2 where "W2 = fl wn"
  define s where "s = W1 + W2"
  define t where "t = fl s"
  define eps :: rat where "eps = 1 / 2 ^ 53"
  have eps: "0 < eps" "eps \<le> 1 / 2 ^ 53" by (simp_all add: eps_def)
  have big: "fl (2 ^ 1000) = 2 ^ 1000" using fl_pow2[of 1000] by simp
  have small: "fl (1 / 2 ^ 1001) = 1 / 2 ^ 1001"
    using fl_pow2[of "- 1001"] by (simp add: power_int_minus_divide)
  have W1: "0 \<le> W1" "W1 \<le> 2 ^ 1000"
    using fl_nonneg[OF assms(1)] fl_mono[of wi "2 ^ 1000"] assms big by (simp_all add: W1_def)
  have W2: "0 \<le> W2" "W2 \<le> 2 ^ 1000"
    using fl_nonneg[OF assms(2)] fl_mono[of wn "2 ^ 1000"] assms big by (simp_all add: W2_def)
  have "1 / 2 ^ 1001 \<le> wi \<or> 1 / 2 ^ 1001 \<le> wn"
  proof (rule ccontr)
    assume "\<not> ?thesis"
    then have "wi + wn < 1 / 2 ^ 1001 + 1 / 2 ^ 1001" by linarith
    also have "\<dots> = 1 / 2 ^ 1000" by simp
    finally show False using assms(3) by simp
  qed
  then have "1 / 2 ^ 1001 \<le> W1 \<or> 1 / 2 ^ 1001 \<le> W2"
    using fl_mono[of "1 / 2 ^ 1001" wi] fl_mono[of "1 / 2 ^ 1001" wn] small
    by (auto simp: W1_def W2_def)
  then have slo: "1 / 2 ^ 1001 \<le> s" using W1 W2 unfolding s_def by linarith
  have shi: "s \<le> 2 ^ 1001" using W1 W2 by (simp add: s_def)
  have spos: "0 < s" using slo by (simp add: less_le_trans[of 0 "1 / 2 ^ 1001"])
  have nov: "\<not> overflows s" using shi spos by (intro not_overflows_small) simp
  have "(2::rat) powi (- 1022) \<le> 1 / 2 ^ 1001" by (simp add: power_int_minus_divide)
  then have "2 powi (- 1022) \<le> \<bar>s\<bar>" using slo spos by simp
  from fl_rel_err[OF this] have terr: "\<bar>t - s\<bar> \<le> s * eps" using spos by (simp add: t_def eps_def)
  have "s * eps \<le> s * (1 / 2)" using spos by (intro mult_left_mono) (simp_all add: eps_def)
  then have tlo: "s / 2 \<le> t" using terr by (simp add: abs_le_iff)
  then have tpos: "0 < t" using spos by linarith
  define a where "a = fl (W1 / t)"
  define b where "b = fl (W2 / t)"
  have nw: "normalized_weights wi wn = Inr (a, b)"
    using nov tpos
    by (simp add: normalized_weights_total W1_def[symmetric] W2_def[symmetric] s_def[symmetric]
        t_def[symmetric] a_def b_def)
  have a0: "0 \<le> a" unfolding a_def using W1 tpos by (intro fl_nonneg) simp
  have b0: "0 \<le> b" unfolding b_def using W2 tpos by (intro fl_nonneg) simp
  have st: "s / t \<le> 2" using tlo tpos by (simp add: divide_le_eq)
  have "W1 / t \<le> s / t" using W2 tpos by (simp add: s_def divide_right_mono)
  then have "\<bar>W1 / t\<bar> < 2 powi (1 + 1)" using st W1 tpos by simp
  from fl_abs_err[OF this] have ea: "\<bar>a - W1 / t\<bar> \<le> 1 / 2 ^ 52"
    by (simp add: a_def power_int_minus_divide)
  have "W2 / t \<le> s / t" using W1 tpos by (simp add: s_def divide_right_mono)
  then have "\<bar>W2 / t\<bar> < 2 powi (1 + 1)" using st W2 tpos by simp
  from fl_abs_err[OF this] have eb: "\<bar>b - W2 / t\<bar> \<le> 1 / 2 ^ 52"
    by (simp add: b_def power_int_minus_divide)
  have sum: "W1 / t + W2 / t = s / t" by (simp add: s_def add_divide_distrib)
  have "\<bar>s / t - 1\<bar> = \<bar>s - t\<bar> / t" using tpos by (simp add: field_simps abs_divide)
  also have "\<dots> \<le> (s * eps) / t" using terr tpos by (simp add: divide_right_mono abs_minus_commute)
  also have "\<dots> = (s / t) * eps" by simp
  also have "\<dots> \<le> 2 * eps" using st eps by (intro mult_right_mono) simp_all
  finally have e3: "\<bar>s / t - 1\<bar> \<le> 1 / 2 ^ 52" by (simp add: eps_def)
  define d :: rat where "d = 1 / 2 ^ 52"
  have "\<bar>a + b - 1\<bar> \<le> d + d + d"
    using ea eb e3 sum unfolding d_def[symmetric] by linarith
  also have "\<dots> \<le> 1 / 2 ^ 51 + 1 / 2 ^ 51" by (simp add: d_def)
  finally have "\<bar>a + b - 1\<bar> \<le> 1 / 2 ^ 50" by simp
  then show ?thesis using nw a0 b0 by blast
qed

lemma combine_upper:
  assumes nw: "normalized_weights wi wn = Inr (a, b)" "0 \<le> a" "0 \<le> b" "\<bar>a + b - 1\<bar> \<le> 1 / 2 ^ 50"
    and i: "0 \<le> i" "i \<le> u" and n: "0 \<le> n" "n \<le> u"
    and u: "0 \<le> k" "k \<le> 1000" "u = fl (of_int k / 100)"
  shows "\<exists>f. combine i n wi wn = Inr f \<and> f \<le> u"
proof -
  define d :: rat where "d = 1 / 2 ^ 50"
  have d: "0 < d" "d \<le> 1" by (simp_all add: d_def)
  have u10: "0 \<le> u" "u \<le> 10" using fl_hundredth_range[OF u(1,2)] by (simp_all add: u(3))
  have ab: "a + b \<le> 1 + d" using nw(4) unfolding d_def[symmetric] by linarith
  have a2: "a \<le> 2" "b \<le> 2" using ab nw(2,3) d by linarith+
  define p1 where "p1 = fl (i * a)"
  define p2 where "p2 = fl (n * b)"
  define F where "F = fl (p1 + p2)"
  have i10: "i \<le> 10" and n10: "n \<le> 10" using i n u10 by linarith+
  have ia0: "0 \<le> i * a" using i nw(2) by simp
  have ia1: "i * a \<le> 10 * 2" by (rule mult_mono) (use i10 a2 nw(2) in simp_all)
  have nb0: "0 \<le> n * b" using n nw(3) by simp
  have nb1: "n * b \<le> 10 * 2" by (rule mult_mono) (use n10 a2 nw(3) in simp_all)
  note ia = ia0 ia1 and nb = nb0 nb1
  define e1 :: rat where "e1 = 1 / 2 ^ 49"
  define e2 :: rat where "e2 = 1 / 2 ^ 48"
  have "\<bar>i * a\<bar> < 2 powi (4 + 1)" using ia by simp
  from fl_abs_err[OF this] have p1: "\<bar>p1 - i * a\<bar> \<le> e1"
    by (simp add: p1_def e1_def power_int_minus_divide)
  have "\<bar>n * b\<bar> < 2 powi (4 + 1)" using nb by simp
  from fl_abs_err[OF this] have p2: "\<bar>p2 - n * b\<bar> \<le> e1"
    by (simp add: p2_def e1_def power_int_minus_divide)
  have e1: "0 < e1" "e1 \<le> 1" by (simp_all add: e1_def)
  have "\<bar>p1 + p2\<bar> < 64" using p1 p2 ia nb e1 by linarith
  then have "\<bar>p1 + p2\<bar> < 2 powi (5 + 1)" by simp
  from fl_abs_err[OF this] have F: "\<bar>F - (p1 + p2)\<bar> \<le> e2"
    by (simp add: F_def e2_def power_int_minus_divide)
  have "i * a + n * b \<le> u * a + u * b"
    using i n nw(2,3) by (intro add_mono mult_right_mono) simp_all
  also have "\<dots> = u * (a + b)" by (simp add: algebra_simps)
  also have "\<dots> \<le> u * (1 + d)" using ab u10 by (intro mult_left_mono) simp_all
  also have "\<dots> = u + u * d" by (simp add: algebra_simps)
  also have "\<dots> \<le> u + 10 * d" using u10 d by (simp add: mult_right_mono)
  finally have m: "i * a + n * b \<le> u + 10 * d" .
  have Fu: "F \<le> u + 10 * d + 2 * e1 + e2" using m p1 p2 F by linarith
  define c where "c = max 0 (min 10 F)"
  have "c \<le> u + 10 * d + 2 * e1 + e2" using Fu u10 d e1 unfolding c_def e2_def by simp
  moreover have "u \<le> of_int k / 100 + d"
    using fl_hundredth_err[OF u(1,2)] unfolding u(3) d_def by linarith
  moreover have "11 * d + 2 * e1 + e2 < 1 / 200" by (simp add: d_def e1_def e2_def)
  ultimately have "c < of_int k / 100 + 1 / 200" by linarith
  then have "round2 c \<le> u" unfolding u(3) by (rule round2_le)
  moreover have "combine i n wi wn = Inr (round2 c)"
    by (simp add: combine_def nw(1) Let_def c_def F_def p1_def p2_def)
  ultimately show ?thesis by simp
qed

lemma combine_lower:
  assumes nw: "normalized_weights wi wn = Inr (a, b)" "0 \<le> a" "0 \<le> b" "\<bar>a + b - 1\<bar> \<le> 1 / 2 ^ 50"
    and i: "l \<le> i" "i \<le> 10" and n: "l \<le> n" "n \<le> 10"
    and l: "0 \<le> k" "k \<le> 1000" "l = fl (of_int k / 100)"
  shows "\<exists>f. combine i n wi wn = Inr f \<and> l \<le> f"
proof -
  define d :: rat where "d = 1 / 2 ^ 50"
  have d: "0 < d" "d \<le> 1" by (simp_all add: d_def)
  have l10: "0 \<le> l" "l \<le> 10" using fl_hundredth_range[OF l(1,2)] by (simp_all add: l(3))
  have i0: "0 \<le> i" and n0: "0 \<le> n" using i n l10 by linarith+
  have ab: "a + b \<le> 1 + d" "1 - d \<le> a + b" using nw(4) unfolding d_def[symmetric] by linarith+
  have a2: "a \<le> 2" "b \<le> 2" using ab nw(2,3) d by linarith+
  define p1 where "p1 = fl (i * a)"
  define p2 where "p2 = fl (n * b)"
  define F where "F = fl (p1 + p2)"
  have ia0: "0 \<le> i * a" using i0 nw(2) by simp
  have ia1: "i * a \<le> 10 * 2" by (rule mult_mono) (use i a2 nw(2) in simp_all)
  have nb0: "0 \<le> n * b" using n0 nw(3) by simp
  have nb1: "n * b \<le> 10 * 2" by (rule mult_mono) (use n a2 nw(3) in simp_all)
  note ia = ia0 ia1 and nb = nb0 nb1
  define e1 :: rat where "e1 = 1 / 2 ^ 49"
  define e2 :: rat where "e2 = 1 / 2 ^ 48"
  have "\<bar>i * a\<bar> < 2 powi (4 + 1)" using ia by simp
  from fl_abs_err[OF this] have p1: "\<bar>p1 - i * a\<bar> \<le> e1"
    by (simp add: p1_def e1_def power_int_minus_divide)
  have "\<bar>n * b\<bar> < 2 powi (4 + 1)" using nb by simp
  from fl_abs_err[OF this] have p2: "\<bar>p2 - n * b\<bar> \<le> e1"
    by (simp add: p2_def e1_def power_int_minus_divide)
  have e1: "0 < e1" "e1 \<le> 1" by (simp_all add: e1_def)
  have "\<bar>p1 + p2\<bar> < 64" using p1 p2 ia nb e1 by linarith
  then have "\<bar>p1 + p2\<bar> < 2 powi (5 + 1)" by simp
  from fl_abs_err[OF this] have F: "\<bar>F - (p1 + p2)\<bar> \<le> e2"
    by (simp add: F_def e2_def power_int_minus_divide)
  have "l - 10 * d \<le> l - l * d" using l10 d by (simp add: mult_right_mono)
  also have "\<dots> = l * (1 - d)" by (simp add: algebra_simps)
  also have "\<dots> \<le> l * (a + b)" using ab l10 by (intro mult_left_mono) simp_all
  also have "\<dots> = l * a + l * b" by (simp add: algebra_simps)
  also have "\<dots> \<le> i * a + n * b"
    using i n nw(2,3) by (intro add_mono mult_right_mono) simp_all
  finally have m: "l - 10 * d \<le> i * a + n * b" .
  have Fl: "l - 10 * d - 2 * e1 - e2 \<le> F" using m p1 p2 F by linarith
  define c where "c = max 0 (min 10 F)"
  have e2: "0 < e2" by (simp add: e2_def)
  have "l - 10 * d - 2 * e1 - e2 \<le> c" using Fl l10 d e1 e2 unfolding c_def by simp
  moreover have "of_int k / 100 - d \<le> l"
    using fl_hundredth_err[OF l(1,2)] unfolding l(3) d_def by linarith
  moreover have "11 * d + 2 * e1 + e2 < 1 / 200" by (simp add: d_def e1_def e2_def)
  ultimately have "of_int k / 100 - 1 / 200 < c" by linarith
  then have "l \<le> round2 c" unfolding l(3) by (rule round2_ge)
  moreover have "combine i n wi wn = Inr (round2 c)"
    by (simp add: combine_def nw(1) Let_def c_def F_def p1_def p2_def)
  ultimately show ?thesis by simp
qed

lemma combine_between:
  assumes nw: "normalized_weights wi wn = Inr (a, b)" "0 \<le> a" "0 \<le> b" "\<bar>a + b - 1\<bar> \<le> 1 / 2 ^ 50"
    and i: "0 \<le> ki" "ki \<le> 1000" "i = fl (of_int ki / 100)"
    and n: "0 \<le> kn" "kn \<le> 1000" "n = fl (of_int kn / 100)"
  shows "\<exists>f. combine i n wi wn = Inr f \<and> min i n \<le> f \<and> f \<le> max i n"
proof -
  have ir: "0 \<le> i" "i \<le> 10" using fl_hundredth_range[OF i(1,2)] by (simp_all add: i(3))
  have nr: "0 \<le> n" "n \<le> 10" using fl_hundredth_range[OF n(1,2)] by (simp_all add: n(3))
  have up: "\<exists>f. combine i n wi wn = Inr f \<and> f \<le> max i n"
  proof (cases "i \<le> n")
    case True
    then have "max i n = n" by simp
    then show ?thesis using combine_upper[OF nw ir(1) True nr(1) order_refl n] by simp
  next
    case False
    then have "n \<le> i" "max i n = i" by simp_all
    then show ?thesis using combine_upper[OF nw ir(1) order_refl nr(1) \<open>n \<le> i\<close> i] by simp
  qed
  have lo: "\<exists>f. combine i n wi wn = Inr f \<and> min i n \<le> f"
  proof (cases "i \<le> n")
    case True
    then have "min i n = i" by simp
    then show ?thesis using combine_lower[OF nw order_refl ir(2) True nr(2) i] by simp
  next
    case False
    then have "n \<le> i" "min i n = n" by simp_all
    then show ?thesis using combine_lower[OF nw \<open>n \<le> i\<close> ir(2) order_refl nr(2) n] by simp
  qed
  from up lo show ?thesis by auto
qed

text \<open>
  C1. An empty list of findings scores 5. Otherwise, with every finding's tier mapped to its
  weight (safe 1, caution 0, unsafe -1, unknown 0), \<open>raw\<close> their sum and \<open>n\<close> the number of
  findings, the ingredient sub-score is \<open>((raw + n) / (2n)) * 10\<close> evaluated in double
  precision and rounded to two decimals: a hundredth between 0 and 10 that is within 0.005
  (and the rounding error, at most \<open>2\<^sup>-\<^sup>4\<^sup>8\<close>) of the exact value of the formula. An all-unsafe
  list scores 0 and an all-safe list scores 10.
\<close>

theorem ingredient_score_formula:
  assumes "map status ia = map tier_name ts"
  shows "compute_ingredient_score ia =
           (if ia = [] then Inr 5
            else Inr (round2 (fl (fl (of_int (sum_list (map tier_weight ts) + int (length ts))
                                        / of_int (2 * int (length ts))) * 10))))
         \<and> (ia \<noteq> [] \<longrightarrow>
              (\<exists>k. compute_ingredient_score ia = Inr (fl (of_int k / 100)) \<and> 0 \<le> k \<and> k \<le> 1000
                   \<and> \<bar>of_int k / 100 - ingredient_formula ts\<bar> \<le> 1 / 200 + 1 / 2 ^ 48))
         \<and> (ia \<noteq> [] \<and> (\<forall>t\<in>set ts. t = Unsafe) \<longrightarrow> compute_ingredient_score ia = Inr 0)
         \<and> (ia \<noteq> [] \<and> (\<forall>t\<in>set ts. t = Safe) \<longrightarrow> compute_ingredient_score ia = Inr 10)"
proof -
  have len: "length ts = length ia" using assms by (metis length_map)
  define raw where "raw = sum_list (map tier_weight ts)"
  define n where "n = int (length ts)"
  define z where "z = fl (fl (of_int (raw + n) / of_int (2 * n)) * 10)"
  have raw: "sum_list (map (\<lambda>f. mapping_get (lower (status f))) ia) = raw"
    using raw_of_tiers[OF assms] by (simp add: raw_def)
  have main: "compute_ingredient_score ia = Inr (round2 z)" if "ia \<noteq> []"
    using ingredient_score_eq[OF that] by (simp add: raw z_def n_def len)
  have close: "\<exists>k. compute_ingredient_score ia = Inr (fl (of_int k / 100)) \<and> 0 \<le> k \<and> k \<le> 1000
                   \<and> \<bar>of_int k / 100 - ingredient_formula ts\<bar> \<le> 1 / 200 + 1 / 2 ^ 48" if "ia \<noteq> []"
  proof -
    have n: "0 < n" using that len by (simp add: n_def)
    have r: "- n \<le> raw" "raw \<le> n" using raw_range[of ia] by (simp_all add: raw n_def len)
    note v = ingredient_value[OF n r, folded z_def]
    define k where "k = hundredths z"
    have k: "0 \<le> k" "k \<le> 1000" using hundredths_range[of z] v by (simp_all add: k_def)
    have "\<bar>of_int k - z * 100\<bar> \<le> 1 / 2" unfolding k_def hundredths_def by (rule round_half_even_err)
    then have "\<bar>of_int k / 100 - z\<bar> \<le> 1 / 200" by linarith
    moreover have "\<bar>z - ingredient_formula ts\<bar> \<le> 1 / 2 ^ 48"
      using v by (simp add: ingredient_formula_def raw_def n_def)
    ultimately have "\<bar>of_int k / 100 - ingredient_formula ts\<bar> \<le> 1 / 200 + 1 / 2 ^ 48" by linarith
    moreover have "compute_ingredient_score ia = Inr (fl (of_int k / 100))"
      using main[OF that] by (simp add: round2_def k_def)
    ultimately show ?thesis using k by blast
  qed
  have unsafe: "compute_ingredient_score ia = Inr 0" if "ia \<noteq> []" "\<forall>t\<in>set ts. t = Unsafe"
  proof -
    have "sum_list (map tier_weight ts) = - 1 * int (length ts)"
      by (rule sum_const_tier) (use that in auto)
    then have "z = 0" by (simp add: z_def raw_def n_def)
    then show ?thesis using main[OF that(1)] by simp
  qed
  have safe: "compute_ingredient_score ia = Inr 10" if "ia \<noteq> []" "\<forall>t\<in>set ts. t = Safe"
  proof -
    have "sum_list (map tier_weight ts) = 1 * int (length ts)"
      by (rule sum_const_tier) (use that in auto)
    moreover have "length ts \<noteq> 0" using that len by simp
    ultimately have "z = 10" by (simp add: z_def raw_def n_def)
    then show ?thesis using main[OF that(1)] by (simp add: round2_def hundredths_def)
  qed
  show ?thesis using main close unsafe safe
    by (simp add: compute_ingredient_score_def z_def raw_def n_def)
qed

lemma ingredient_score_examples:
  "compute_ingredient_score
       [\<lparr>name = ''Milk'', status = ''safe'', reason = ''r''\<rparr>,
        \<lparr>name = ''Sugar'', status = ''caution'', reason = ''r''\<rparr>,
        \<lparr>name = ''Salt'', status = ''caution'', reason = ''r''\<rparr>] = Inr (fl (667 / 100))
   \<and> fl (667 / 100) = 3754876189320151 / 562949953421312
   \<and> compute_ingredient_score
       [\<lparr>name = ''Sugar'', status = ''caution'', reason = ''r''\<rparr>,
        \<lparr>name = ''Salt'', status = ''caution'', reason = ''r''\<rparr>,
        \<lparr>name = ''Unknownite'', status = ''unknown'', reason = ''No information available''\<rparr>] = Inr 5"
  by code_simp

theorem ingredient_score_formula_witness:
  "map status [\<lparr>name = ''Milk'', status = ''safe'', reason = ''r''\<rparr>,
               \<lparr>name = ''Sugar'', status = ''caution'', reason = ''r''\<rparr>,
               \<lparr>name = ''Salt'', status = ''caution'', reason = ''r''\<rparr>]
     = map tier_name [Safe, Caution, Caution]
   \<and> compute_ingredient_score
       [\<lparr>name = ''Milk'', status = ''safe'', reason = ''r''\<rparr>,
        \<lparr>name = ''Sugar'', status = ''caution'', reason = ''r''\<rparr>,
        \<lparr>name = ''Salt'', status = ''caution'', reason = ''r''\<rparr>] = Inr (fl (667 / 100))
   \<and> fl (667 / 100) = 3754876189320151 / 562949953421312
   \<and> compute_ingredient_score
       [\<lparr>name = ''Sugar'', status = ''caution'', reason = ''r''\<rparr>,
        \<lparr>name = ''Salt'', status = ''caution'', reason = ''r''\<rparr>,
        \<lparr>name = ''Unknownite'', status = ''unknown'', reason = ''No information available''\<rparr>] = Inr 5"
  using ingredient_score_formula[of
       "[\<lparr>name = ''Milk'', status = ''safe'', reason = ''r''\<rparr>,
        \<lparr>name = ''Sugar'', status = ''caution'', reason = ''r''\<rparr>,
        \<lparr>name = ''Salt'', status = ''caution'', reason = ''r''\<rparr>]"
       "[Safe, Caution, Caution]"]
    ingredient_score_examples
  by simp

text \<open>
  With 197 unsafe and 3 caution findings the exact value of the formula is 0.075, whose nearest
  hundredth is 0.08 (ties to even, and also ties away from zero); the double-precision
  product is just below 0.075 and the sub-score is 0.07.
\<close>

lemma tie_values:
  "round2 (fl (fl (3 / 400) * 10)) = fl (7 / 100)"
  "fl (fl (3 / 400) * 10) = 5404319552844595 / 2 ^ 56"
  "nearest_hundredth (75 / 1000) = 8 / 100"
  "fl (7 / 100) \<noteq> fl (8 / 100)"
  "fl (7 / 100) \<noteq> 8 / 100"
  by code_simp+

theorem ingredient_score_rounding_counterexample:
  "compute_ingredient_score
     (replicate 197 \<lparr>name = ''a'', status = ''unsafe'', reason = ''r''\<rparr>
      @ replicate 3 \<lparr>name = ''b'', status = ''caution'', reason = ''r''\<rparr>) = Inr (fl (7 / 100))
   \<and> ingredient_formula (replicate 197 Unsafe @ replicate 3 Caution) = 75 / 1000
   \<and> nearest_hundredth (ingredient_formula (replicate 197 Unsafe @ replicate 3 Caution)) = 8 / 100
   \<and> fl (7 / 100) \<noteq> fl (8 / 100) \<and> fl (7 / 100) \<noteq> 8 / 100"
proof -
  let ?ia = "replicate 197 \<lparr>name = ''a'', status = ''unsafe'', reason = ''r''\<rparr>
      @ replicate 3 \<lparr>name = ''b'', status = ''caution'', reason = ''r''\<rparr>"
  let ?ts = "replicate 197 Unsafe @ replicate 3 Caution"
  have st: "map status ?ia = map tier_name ?ts" by simp
  have raw: "sum_list (map tier_weight ?ts) = - 197" by (simp add: sum_list_replicate)
  have "sum_list (map (\<lambda>f. mapping_get (lower (status f))) ?ia) = - 197"
    using raw_of_tiers[OF st] raw by simp
  then have e: "compute_ingredient_score ?ia = Inr (round2 (fl (fl (3 / 400) * 10)))"
    using ingredient_score_eq[of ?ia] by simp
  have c1: "compute_ingredient_score ?ia = Inr (fl (7 / 100))"
    unfolding e by (simp only: tie_values(1))
  have c2: "ingredient_formula ?ts = 75 / 1000"
    unfolding ingredient_formula_def raw by simp
  have c3: "nearest_hundredth (ingredient_formula ?ts) = 8 / 100"
    unfolding c2 by (rule tie_values(3))
  show ?thesis by (intro conjI c1 c2 c3 tie_values(4) tie_values(5))
qed

text \<open>
  C2. For every list of findings, whatever their status strings, and every nutrition input
  (numeric dictionary or pros and cons lists), the ingredient sub-score, the nutrition
  sub-score and the final score lie between 0 and 10.
\<close>

theorem scores_in_range:
  "(\<exists>s. compute_ingredient_score ia = Inr s \<and> 0 \<le> s \<and> s \<le> 10)
   \<and> 0 \<le> compute_nutrition_score_from_values d \<and> compute_nutrition_score_from_values d \<le> 10
   \<and> 0 \<le> compute_nutrition_score_from_pros_cons p c \<and> compute_nutrition_score_from_pros_cons p c \<le> 10
   \<and> 0 \<le> nutri_score_of ni np nc \<and> nutri_score_of ni np nc \<le> 10
   \<and> (\<exists>f. compute_safety_score ia ni np nc wi wn = Inr f \<and> 0 \<le> f \<and> f \<le> 10)"
proof -
  obtain s where s: "compute_ingredient_score ia = Inr s" using ingredient_score_range by blast
  have "\<exists>f. compute_safety_score ia ni np nc wi wn = Inr f \<and> 0 \<le> f \<and> f \<le> 10"
    unfolding compute_safety_score_def s using combine_range by simp
  then show ?thesis
    using ingredient_score_range nutrition_values_range nutrition_pros_cons_range nutri_score_of_range
    by blast
qed

theorem scores_in_range_witness:
  "(\<exists>s. compute_ingredient_score [\<lparr>name = ''E621'', status = ''Banned?'', reason = ''r''\<rparr>] = Inr s
        \<and> 0 \<le> s \<and> s \<le> 10)
   \<and> compute_nutrition_score_from_values
        [(''sugar_g'', Some 5), (''sodium_mg'', Some 100), (''total_fat_g'', Some 3),
         (''protein_g'', Some 10)] = 6
   \<and> compute_nutrition_score_from_pros_cons [] [''a'', ''b'', ''c'', ''d'', ''e'', ''f'', ''g'', ''h''] = 0"
proof -
  have "compute_nutrition_score_from_values
        [(''sugar_g'', Some 5), (''sodium_mg'', Some 100), (''total_fat_g'', Some 3),
         (''protein_g'', Some 10)] = 6"
    by code_simp
  moreover have "compute_nutrition_score_from_pros_cons [] [''a'', ''b'', ''c'', ''d'', ''e'', ''f'', ''g'', ''h''] = 0"
    by code_simp
  ultimately show ?thesis
    using scores_in_range[of "[\<lparr>name = ''E621'', status = ''Banned?'', reason = ''r''\<rparr>]"]
    by blast
qed

text \<open>
  C3. The weights are divided by their sum in double precision. Non-negative weights of
  ordinary size are normalised to a sum of 1 up to rounding (within \<open>2\<^sup>-\<^sup>5\<^sup>0\<close>), and the final score
  then lies between the two sub-scores. With weights 0 and 1 the final score is exactly the
  nutrition sub-score; with both weights 0 it is 0; no weights make the call fail with a
  division error.
\<close>

theorem weights_normalized:
  "(0 \<le> wi \<and> 0 \<le> wn \<and> 1 / 2 ^ 1000 \<le> wi + wn \<and> wi + wn \<le> 2 ^ 1000 \<longrightarrow>
      (\<exists>a b s f. normalized_weights wi wn = Inr (a, b) \<and> 0 \<le> a \<and> 0 \<le> b
         \<and> \<bar>a + b - 1\<bar> \<le> 1 / 2 ^ 50
         \<and> compute_ingredient_score ia = Inr s
         \<and> compute_safety_score ia ni np nc wi wn = Inr f
         \<and> min s (nutri_score_of ni np nc) \<le> f \<and> f \<le> max s (nutri_score_of ni np nc)))
   \<and> compute_safety_score ia ni np nc 0 1 = Inr (nutri_score_of ni np nc)
   \<and> compute_safety_score ia ni np nc 0 0 = Inr 0
   \<and> (\<exists>f. compute_safety_score ia ni np nc wi wn = Inr f)"
proof -
  obtain ki where ki: "0 \<le> ki" "ki \<le> 1000" "compute_ingredient_score ia = Inr (fl (of_int ki / 100))"
    using ingredient_score_form by blast
  obtain kn where kn: "0 \<le> kn" "kn \<le> 1000" "nutri_score_of ni np nc = fl (of_int kn / 100)"
    using nutri_score_of_form by blast
  have a: "\<exists>a b s f. normalized_weights wi wn = Inr (a, b) \<and> 0 \<le> a \<and> 0 \<le> b
         \<and> \<bar>a + b - 1\<bar> \<le> 1 / 2 ^ 50
         \<and> compute_ingredient_score ia = Inr s
         \<and> compute_safety_score ia ni np nc wi wn = Inr f
         \<and> min s (nutri_score_of ni np nc) \<le> f \<and> f \<le> max s (nutri_score_of ni np nc)"
    if w: "0 \<le> wi" "0 \<le> wn" "1 / 2 ^ 1000 \<le> wi + wn" "wi + wn \<le> 2 ^ 1000"
  proof -
    obtain a b where nw: "normalized_weights wi wn = Inr (a, b)" "0 \<le> a" "0 \<le> b"
        "\<bar>a + b - 1\<bar> \<le> 1 / 2 ^ 50"
      using normalized_weights_sum[OF w] by blast
    obtain f where f: "combine (fl (of_int ki / 100)) (nutri_score_of ni np nc) wi wn = Inr f"
        "min (fl (of_int ki / 100)) (nutri_score_of ni np nc) \<le> f"
        "f \<le> max (fl (of_int ki / 100)) (nutri_score_of ni np nc)"
      using combine_between[OF nw ki(1,2) refl kn] by blast
    have "compute_safety_score ia ni np nc wi wn = Inr f"
      by (simp add: compute_safety_score_def ki(3) f(1))
    then show ?thesis using nw ki(3) f(2,3) by blast
  qed
  have b: "compute_safety_score ia ni np nc 0 1 = Inr (nutri_score_of ni np nc)"
    unfolding compute_safety_score_def ki(3) kn(3) using combine_zero_one[OF kn(1,2)] by simp
  have c: "compute_safety_score ia ni np nc 0 0 = Inr 0"
    unfolding compute_safety_score_def ki(3) by (simp add: combine_zero_zero)
  have d: "\<exists>f. compute_safety_score ia ni np nc wi wn = Inr f"
    unfolding compute_safety_score_def ki(3)
    using combine_range[of "fl (of_int ki / 100)" "nutri_score_of ni np nc" wi wn] by auto
  show ?thesis using a b c d by blast
qed

lemma fl_small_ints [simp]: "fl 2 = 2" "fl 3 = 3" "fl 7 = 7" "fl 8 = 8"
  using fl_of_int[of 2] fl_of_int[of 3] fl_of_int[of 7] fl_of_int[of 8] by simp_all

lemma weights_seven_three: "normalized_weights 7 3 = Inr (fl (7 / 10), fl (3 / 10))"
  by (simp add: normalized_weights_total not_overflows_small)

lemma scores_two_eight:
  "compute_ingredient_score
        [\<lparr>name = ''a'', status = ''unsafe'', reason = ''r''\<rparr>,
         \<lparr>name = ''b'', status = ''unsafe'', reason = ''r''\<rparr>,
         \<lparr>name = ''c'', status = ''unsafe'', reason = ''r''\<rparr>,
         \<lparr>name = ''d'', status = ''unsafe'', reason = ''r''\<rparr>,
         \<lparr>name = ''e'', status = ''safe'', reason = ''r''\<rparr>] = Inr 2
   \<and> nutri_score_of None (Some [''p1'', ''p2'', ''p3'', ''p4'', ''p5'', ''p6'']) (Some []) = 8
   \<and> round2 (max 0 (min 10 (fl (fl (2 * fl (7 / 10)) + fl (8 * fl (3 / 10)))))) = fl (38 / 10)
   \<and> round2 8 = 8"
  by code_simp

lemma safety_score_examples:
  "compute_safety_score
        [\<lparr>name = ''a'', status = ''unsafe'', reason = ''r''\<rparr>,
         \<lparr>name = ''b'', status = ''unsafe'', reason = ''r''\<rparr>,
         \<lparr>name = ''c'', status = ''unsafe'', reason = ''r''\<rparr>,
         \<lparr>name = ''d'', status = ''unsafe'', reason = ''r''\<rparr>,
         \<lparr>name = ''e'', status = ''safe'', reason = ''r''\<rparr>]
        None (Some [''p1'', ''p2'', ''p3'', ''p4'', ''p5'', ''p6'']) (Some []) 7 3 = Inr (fl (38 / 10))
   \<and> compute_safety_score
        [\<lparr>name = ''a'', status = ''unsafe'', reason = ''r''\<rparr>,
         \<lparr>name = ''b'', status = ''unsafe'', reason = ''r''\<rparr>,
         \<lparr>name = ''c'', status = ''unsafe'', reason = ''r''\<rparr>,
         \<lparr>name = ''d'', status = ''unsafe'', reason = ''r''\<rparr>,
         \<lparr>name = ''e'', status = ''safe'', reason = ''r''\<rparr>]
        None (Some [''p1'', ''p2'', ''p3'', ''p4'', ''p5'', ''p6'']) (Some []) 0 1 = Inr 8
   \<and> compute_safety_score
        [\<lparr>name = ''a'', status = ''unsafe'', reason = ''r''\<rparr>,
         \<lparr>name = ''b'', status = ''unsafe'', reason = ''r''\<rparr>,
         \<lparr>name = ''c'', status = ''unsafe'', reason = ''r''\<rparr>,
         \<lparr>name = ''d'', status = ''unsafe'', reason = ''r''\<rparr>,
         \<lparr>name = ''e'', status = ''safe'', reason = ''r''\<rparr>]
        None (Some [''p1'', ''p2'', ''p3'', ''p4'', ''p5'', ''p6'']) (Some []) 0 0 = Inr 0"
  using scores_two_eight
  by (simp add: compute_safety_score_def combine_def weights_seven_three
      normalized_weights_zero_one normalized_weights_zero_zero Let_def)

theorem weights_normalized_witness:
  "(0 \<le> (7::rat) \<and> 0 \<le> (3::rat) \<and> 1 / 2 ^ 1000 \<le> (7::rat) + 3 \<and> (7::rat) + 3 \<le> 2 ^ 1000)
   \<and> normalized_weights 7 3 = Inr (fl (7 / 10), fl (3 / 10))
   \<and> compute_safety_score
        [\<lparr>name = ''a'', status = ''unsafe'', reason = ''r''\<rparr>,
         \<lparr>name = ''b'', status = ''unsafe'', reason = ''r''\<rparr>,
         \<lparr>name = ''c'', status = ''unsafe'', reason = ''r''\<rparr>,
         \<lparr>name = ''d'', status = ''unsafe'', reason = ''r''\<rparr>,
         \<lparr>name = ''e'', status = ''safe'', reason = ''r''\<rparr>]
        None (Some [''p1'', ''p2'', ''p3'', ''p4'', ''p5'', ''p6'']) (Some []) 7 3 = Inr (fl (38 / 10))
   \<and> compute_safety_score
        [\<lparr>name = ''a'', status = ''unsafe'', reason = ''r''\<rparr>,
         \<lparr>name = ''b'', status = ''unsafe'', reason = ''r''\<rparr>,
         \<lparr>name = ''c'', status = ''unsafe'', reason = ''r''\<rparr>,
         \<lparr>name = ''d'', status = ''unsafe'', reason = ''r''\<rparr>,
         \<lparr>name = ''e'', status = ''safe'', reason = ''r''\<rparr>]
        None (Some [''p1'', ''p2'', ''p3'', ''p4'', ''p5'', ''p6'']) (Some []) 0 1 = Inr 8
   \<and> compute_safety_score
        [\<lparr>name = ''a'', status = ''unsafe'', reason = ''r''\<rparr>,
         \<lparr>name = ''b'', status = ''unsafe'', reason = ''r''\<rparr>,
         \<lparr>name = ''c'', status = ''unsafe'', reason = ''r''\<rparr>,
         \<lparr>name = ''d'', status = ''unsafe'', reason = ''r''\<rparr>,
         \<lparr>name = ''e'', status = ''safe'', reason = ''r''\<rparr>]
        None (Some [''p1'', ''p2'', ''p3'', ''p4'', ''p5'', ''p6'']) (Some []) 0 0 = Inr 0"
  using weights_normalized[of 7 3
        "[\<lparr>name = ''a'', status = ''unsafe'', reason = ''r''\<rparr>,
         \<lparr>name = ''b'', status = ''unsafe'', reason = ''r''\<rparr>,
         \<lparr>name = ''c'', status = ''unsafe'', reason = ''r''\<rparr>,
         \<lparr>name = ''d'', status = ''unsafe'', reason = ''r''\<rparr>,
         \<lparr>name = ''e'', status = ''safe'', reason = ''r''\<rparr>]"
        None "Some [''p1'', ''p2'', ''p3'', ''p4'', ''p5'', ''p6'']" "Some []"]
    weights_seven_three safety_score_examples
  by simp

text \<open>
  The weights 0.01 and 0.04 are normalised to 0.19999999999999998 and 0.7999999999999999,
  whose sum is not 1, neither exactly nor after rounding to a double.
\<close>

lemma weights_hundredths:
  "fl (1 / 100) = 5764607523034235 / 2 ^ 59"
  "fl (4 / 100) = 5764607523034235 / 2 ^ 57"
  "fl (5764607523034235 / 2 ^ 59 + 5764607523034235 / 2 ^ 57) = 3602879701896397 / 2 ^ 56"
  "fl (5764607523034235 / 2 ^ 59 / (3602879701896397 / 2 ^ 56)) = 7205759403792793 / 2 ^ 55"
  "fl (5764607523034235 / 2 ^ 57 / (3602879701896397 / 2 ^ 56)) = 7205759403792793 / 2 ^ 53"
  "fl (7205759403792793 / 2 ^ 55 + 7205759403792793 / 2 ^ 53) = 9007199254740991 / 2 ^ 53"
  by code_simp+

theorem normalized_weights_sum_counterexample:
  "normalized_weights (1 / 100) (4 / 100)
     = Inr (7205759403792793 / 2 ^ 55, 7205759403792793 / 2 ^ 53)
   \<and> (7205759403792793 / 2 ^ 55 + 7205759403792793 / 2 ^ 53 :: rat) < 1
   \<and> fl (7205759403792793 / 2 ^ 55 + 7205759403792793 / 2 ^ 53) < 1"
proof -
  have nov: "\<not> overflows (5764607523034235 / 2 ^ 59 + 5764607523034235 / 2 ^ 57)"
    by (simp add: overflows_def)
  have nz: "(3602879701896397 / 2 ^ 56 :: rat) \<noteq> 0" by simp
  have c1: "normalized_weights (1 / 100) (4 / 100)
     = Inr (7205759403792793 / 2 ^ 55, 7205759403792793 / 2 ^ 53)"
    by (simp only: normalized_weights_total weights_hundredths nov nz not_False_eq_True
        if_True if_False)
  have c2: "(7205759403792793 / 2 ^ 55 + 7205759403792793 / 2 ^ 53 :: rat) < 1" by simp
  have c3: "fl (7205759403792793 / 2 ^ 55 + 7205759403792793 / 2 ^ 53) < 1"
    unfolding weights_hundredths(6) by simp
  show ?thesis by (intro conjI c1 c2 c3)
qed

section \<open>Properties of the text normaliser\<close>

lemma is_space_blank [simp]: "is_space (CHR '' '')"
  by (simp add: is_space_def)

lemma split_Nil [simp]: "split [] = []"
  by (simp add: split.simps)

lemma split_space [simp]: "is_space c \<Longrightarrow> split (c # cs) = split cs"
  by (subst split.simps, subst (2) split.simps) simp

lemma split_word:
  "\<not> is_space c \<Longrightarrow>
   split (c # cs) = (c # takeWhile (\<lambda>c. \<not> is_space c) cs) # split (dropWhile (\<lambda>c. \<not> is_space c) cs)"
  by (subst split.simps) simp

lemma split_lstrip: "split (dropWhile is_space s) = split s"
  by (induction s) simp_all

lemma split_word_step:
  "\<not> is_space c \<Longrightarrow>
   split (c # cs) =
     (case cs of [] \<Rightarrow> [[c]]
      | d # ds \<Rightarrow> if is_space d then [c] # split cs
                  else (c # hd (split cs)) # tl (split cs))"
  by (cases cs) (simp_all add: split_word)

lemma split_nonempty_tokens: "[] \<notin> set (split s)"
proof (induction s rule: length_induct)
  case (1 s)
  show ?case
  proof (cases s)
    case Nil then show ?thesis by simp
  next
    case (Cons c cs)
    show ?thesis
    proof (cases "is_space c")
      case True
      then show ?thesis using 1 Cons by simp
    next
      case False
      have "length (dropWhile (\<lambda>c. \<not> is_space c) cs) < length s"
        using Cons by (simp add: length_dropWhile_le less_Suc_eq_le)
      then have "[] \<notin> set (split (dropWhile (\<lambda>c. \<not> is_space c) cs))" using 1 by blast
      then show ?thesis using False Cons by (simp add: split_word)
    qed
  qed
qed

lemma split_token_chars: "w \<in> set (split s) \<Longrightarrow> c \<in> set w \<Longrightarrow> c \<in> set s \<and> \<not> is_space c"
proof (induction s arbitrary: w rule: length_induct)
  case (1 s)
  show ?case
  proof (cases s)
    case Nil then show ?thesis using 1 by simp
  next
    case (Cons d ds)
    show ?thesis
    proof (cases "is_space d")
      case True
      then have "w \<in> set (split ds)" using 1(2) Cons by simp
      moreover have "length ds < length s" using Cons by simp
      ultimately have "c \<in> set ds \<and> \<not> is_space c" using 1(1) 1(3) by blast
      then show ?thesis using Cons by simp
    next
      case False
      let ?r = "dropWhile (\<lambda>c. \<not> is_space c) ds"
      have len: "length ?r < length s"
        using Cons by (simp add: length_dropWhile_le less_Suc_eq_le)
      have w: "w = d # takeWhile (\<lambda>c. \<not> is_space c) ds \<or> w \<in> set (split ?r)"
        using 1(2) False Cons by (simp add: split_word)
      then show ?thesis
      proof
        assume "w = d # takeWhile (\<lambda>c. \<not> is_space c) ds"
        then show ?thesis using 1(3) False Cons by (auto dest: set_takeWhileD)
      next
        assume "w \<in> set (split ?r)"
        then have "c \<in> set ?r \<and> \<not> is_space c" using 1(1) len 1(3) by blast
        then show ?thesis using Cons by (auto dest: set_dropWhileD)
      qed
    qed
  qed
qed

lemma join_sp_Cons: "join_sp (w # ws) = w @ (if ws = [] then [] else CHR '' '' # join_sp ws)"
  by (cases ws) simp_all

lemma join_sp_eq_Nil: "[] \<notin> set ws \<Longrightarrow> join_sp ws = [] \<longleftrightarrow> ws = []"
  by (cases ws) (auto simp: join_sp_Cons)

lemma join_sp_chars: "c \<in> set (join_sp ws) \<Longrightarrow> c = CHR '' '' \<or> (\<exists>w\<in>set ws. c \<in> set w)"
  by (induction ws rule: join_sp.induct) auto

lemma rstrip_Nil [simp]: "rstrip [] = []"
  by (simp add: rstrip_def)

lemma rstrip_eq_Nil: "rstrip s = [] \<longleftrightarrow> (\<forall>c\<in>set s. is_space c)"
  by (simp add: rstrip_def dropWhile_eq_Nil_conv)

lemma rstrip_Cons:
  "rstrip (a # s) = (if is_space a \<and> rstrip s = [] then [] else a # rstrip s)"
  by (auto simp: rstrip_def dropWhile_append dropWhile_eq_Nil_conv)

lemma rstrip_sub_spaces:
  "rstrip (sub_spaces t) =
     (if t \<noteq> [] \<and> is_space (hd t) \<and> split t \<noteq> [] then CHR '' '' # join_sp (split t)
      else join_sp (split t))"
proof (induction t rule: sub_spaces.induct)
  case 1
  then show ?case by simp
next
  case (2 c cs)
  show ?case
  proof (cases "is_space c")
    case True
    let ?u = "dropWhile is_space cs"
    have hd: "?u \<noteq> [] \<Longrightarrow> \<not> is_space (hd ?u)" by (rule hd_dropWhile)
    have ih: "rstrip (sub_spaces ?u) = join_sp (split ?u)"
      using 2(1)[OF True] hd by auto
    have sp: "split (c # cs) = split ?u" using True by (simp add: split_lstrip)
    show ?thesis
      using True ih sp split_nonempty_tokens[of ?u]
      by (simp add: rstrip_Cons join_sp_eq_Nil)
  next
    case False
    note ih = 2(2)[OF False]
    show ?thesis
    proof (cases cs)
      case Nil
      then show ?thesis using False by (simp add: rstrip_Cons split_word)
    next
      case (Cons d ds)
      show ?thesis
      proof (cases "is_space d")
        case True
        then show ?thesis using False ih Cons
          by (simp add: rstrip_Cons split_word_step join_sp_Cons)
      next
        case dns: False
        then obtain w rest where s: "split cs = w # rest"
          using Cons by (simp add: split_word)
        show ?thesis using False ih Cons dns s
          by (simp add: rstrip_Cons split_word_step join_sp_Cons)
      qed
    qed
  qed
qed

lemma sub_spaces_head: "t \<noteq> [] \<Longrightarrow> \<not> is_space (hd t) \<Longrightarrow> sub_spaces t \<noteq> [] \<and> hd (sub_spaces t) = hd t"
  by (cases t) simp_all

lemma lstrip_sub_spaces: "lstrip (sub_spaces t) = sub_spaces (lstrip t)"
proof (cases t)
  case Nil
  then show ?thesis by (simp add: lstrip_def)
next
  case (Cons c cs)
  show ?thesis
  proof (cases "is_space c")
    case True
    let ?u = "dropWhile is_space cs"
    have "dropWhile is_space (sub_spaces ?u) = sub_spaces ?u"
    proof (cases "?u = []")
      case True show ?thesis unfolding True by simp
    next
      case False
      then have "\<not> is_space (hd ?u)" by (rule hd_dropWhile)
      then obtain e es where "sub_spaces ?u = e # es" "\<not> is_space e"
        using sub_spaces_head[OF False] by (cases "sub_spaces ?u") auto
      then show ?thesis by simp
    qed
    then show ?thesis using True Cons by (simp add: lstrip_def)
  next
    case False
    then show ?thesis using Cons by (simp add: lstrip_def)
  qed
qed

lemma strip_sub_spaces: "strip (sub_spaces t) = join_sp (split t)"
proof -
  let ?u = "lstrip t"
  have "?u \<noteq> [] \<Longrightarrow> \<not> is_space (hd ?u)" unfolding lstrip_def by (rule hd_dropWhile)
  then have "rstrip (sub_spaces ?u) = join_sp (split ?u)"
    by (auto simp: rstrip_sub_spaces)
  then show ?thesis by (simp add: strip_def lstrip_sub_spaces) (simp add: lstrip_def split_lstrip)
qed

lemma clean_text_words: "clean_text s = join_sp (split (sub_other (lower s)))"
  by (simp add: clean_text_def strip_sub_spaces)

lemma clean_text_chars: "c \<in> set (clean_text s) \<Longrightarrow> is_lower_alnum c \<or> c = CHR '' ''"
proof -
  assume "c \<in> set (clean_text s)"
  then have "c = CHR '' '' \<or> (\<exists>w\<in>set (split (sub_other (lower s))). c \<in> set w)"
    unfolding clean_text_words by (rule join_sp_chars)
  then show ?thesis
  proof
    assume "c = CHR '' ''" then show ?thesis by simp
  next
    assume "\<exists>w\<in>set (split (sub_other (lower s))). c \<in> set w"
    then have "c \<in> set (sub_other (lower s)) \<and> \<not> is_space c" using split_token_chars by blast
    then show ?thesis by (auto simp: sub_other_def)
  qed
qed

lemmas text_eval =
  clean_text_def lower_def lower_char_def sub_other_def is_lower_alnum_def is_space_def
  strip_def lstrip_def rstrip_def char_of_def bit_Suc_0_iff split_word

text \<open>
  C8 (as amended). The normaliser lower-cases its input, puts a space in place of every
  character outside \<open>[a-z0-9\s]\<close>, collapses whitespace runs and trims: the result is
  the words of the lower-cased input, maximal runs of \<open>[a-z0-9]\<close>, joined by single
  spaces. It is a total function, its result has only characters of \<open>[a-z0-9]\<close> and
  spaces, and the empty string is mapped to the empty string.
\<close>

theorem clean_text_normal_form:
  "clean_text s = join_sp (split (sub_other (lower s)))
   \<and> (\<forall>c\<in>set (clean_text s). is_lower_alnum c \<or> c = CHR '' '')
   \<and> clean_text [] = []"
  using clean_text_words clean_text_chars by (simp add: lower_def sub_other_def)

theorem clean_text_normal_form_witness:
  "clean_text ''  Hello,  World-Wide  '' = ''hello world wide''
   \<and> join_sp (split (sub_other (lower ''  Hello,  World-Wide  ''))) = ''hello world wide''
   \<and> clean_text [] = []"
  using clean_text_normal_form[of "''  Hello,  World-Wide  ''"]
  by (simp add: text_eval)

text \<open>
  The claim as stated, with the characters removed, fails: a hyphen between two letters
  becomes a space, it does not disappear.
\<close>

theorem clean_text_removal_counterexample:
  "clean_text ''a-b'' = ''a b'' \<and> normalize_spec ''a-b'' = ''ab''
   \<and> clean_text ''a-b'' \<noteq> normalize_spec ''a-b''"
  by (simp add: normalize_spec_def text_eval)

section \<open>Properties of the fuzzy matcher\<close>

lemma Max_map_Cons:
  "Max (set (map f (x # xs))) = (if xs = [] then f x else max (f x) (Max (set (map f xs))))"
  by simp

lemma Max_map_ge: "r \<in> set xs \<Longrightarrow> f r \<le> Max (set (map f xs))"
  by simp

lemma best_loop_char:
  "best_loop ratio ic refs (bm, hs) =
     (if \<exists>r\<in>set refs. hs < ratio ic (clean_text r)
      then (find (\<lambda>r. ratio ic (clean_text r) = Max (set (map (\<lambda>r. ratio ic (clean_text r)) refs))) refs,
            Max (set (map (\<lambda>r. ratio ic (clean_text r)) refs)))
      else (bm, hs))"
proof (induction refs arbitrary: bm hs)
  case Nil
  then show ?case by simp
next
  case (Cons ref refs)
  define sc where "sc = (\<lambda>r. ratio ic (clean_text r))"
  define M where "M = Max (set (map sc refs))"
  define M' where "M' = Max (set (map sc (ref # refs)))"
  have ih: "best_loop ratio ic refs (b, h) =
      (if \<exists>r\<in>set refs. h < sc r then (find (\<lambda>r. sc r = M) refs, M) else (b, h))" for b h
    unfolding sc_def M_def by (rule Cons.IH)
  have step: "best_loop ratio ic (ref # refs) (bm, hs) =
      (if hs < sc ref then best_loop ratio ic refs (Some ref, sc ref)
       else best_loop ratio ic refs (bm, hs))"
    by (simp add: Let_def sc_def)
  have ge: "sc r \<le> M" if "r \<in> set refs" for r
    unfolding M_def using that by (rule Max_map_ge)
  have M'_max: "M' = max (sc ref) M" if "refs \<noteq> []"
    unfolding M'_def M_def using that by (simp only: Max_map_Cons if_False)
  have M'_single: "M' = sc ref" if "\<forall>r\<in>set refs. sc r \<le> sc ref"
    unfolding M'_def by (rule Max_eqI) (use that in auto)
  have main: "best_loop ratio ic (ref # refs) (bm, hs) =
      (if \<exists>r\<in>set (ref # refs). hs < sc r then (find (\<lambda>r. sc r = M') (ref # refs), M') else (bm, hs))"
  proof (cases "hs < sc ref")
    case True
    show ?thesis
    proof (cases "\<exists>r\<in>set refs. sc ref < sc r")
      case ex: True
      then obtain r where r: "r \<in> set refs" "sc ref < sc r" by blast
      have lt: "sc ref < M" using ge[OF r(1)] r(2) by simp
      have ne: "refs \<noteq> []" using r(1) by (cases refs) simp_all
      have "M' = M" using M'_max[OF ne] lt by simp
      then show ?thesis using True ex lt step ih[of "Some ref" "sc ref"] by auto
    next
      case nex: False
      then have "M' = sc ref" by (intro M'_single) (auto simp: not_less)
      then show ?thesis using True nex step ih[of "Some ref" "sc ref"] by auto
    qed
  next
    case False
    show ?thesis
    proof (cases "\<exists>r\<in>set refs. hs < sc r")
      case ex: True
      then obtain r where r: "r \<in> set refs" "hs < sc r" by blast
      have lt: "sc ref < M" using ge[OF r(1)] r(2) False by simp
      have ne: "refs \<noteq> []" using r(1) by (cases refs) simp_all
      have "M' = M" using M'_max[OF ne] lt by simp
      then show ?thesis using False ex lt step ih[of bm hs] by auto
    next
      case nex: False
      then show ?thesis using False step ih[of bm hs] by auto
    qed
  qed
  from main show ?case unfolding sc_def M'_def .
qed

lemma overlap_loop_find:
  "overlap_loop ic refs =
     find (\<lambda>r. set (split ic) \<inter> set (split (clean_text r)) \<noteq> {}) refs"
  by (induction refs) (auto simp: list_ex_iff Let_def)

lemma match_ingredient_char:
  "match_ingredient ratio x cat t =
     (if \<exists>r\<in>set cat. 0 < score_of ratio x r
      then (if t \<le> Max (set (map (score_of ratio x) cat))
            then find (\<lambda>r. score_of ratio x r = Max (set (map (score_of ratio x) cat))) cat
            else (case find (shares_token x) cat of Some r \<Rightarrow> Some r | None \<Rightarrow> Some x))
      else (if t \<le> 0 then None
            else (case find (shares_token x) cat of Some r \<Rightarrow> Some r | None \<Rightarrow> Some x)))"
  unfolding match_ingredient_def Let_def best_loop_char overlap_loop_find
  unfolding score_of_def[abs_def] shares_token_def[abs_def]
  by simp

lemma lcs_le: "lcs a b \<le> length a \<and> lcs a b \<le> length b"
  by (induction a b rule: lcs.induct) auto

lemma lcs_refl: "lcs a a = length a"
  by (induction a) simp_all

lemma lcs_full: "lcs a b = length a \<Longrightarrow> length a = length b \<Longrightarrow> a = b"
proof (induction a b rule: lcs.induct)
  case (1 ys) then show ?case by simp
next
  case (2 x xs) then show ?case by simp
next
  case (3 x xs y ys)
  show ?case
  proof (cases "x = y")
    case True
    then show ?thesis using 3 by simp
  next
    case False
    have "lcs (x # xs) ys \<le> length ys" "lcs xs (y # ys) \<le> length xs"
      using lcs_le by blast+
    then show ?thesis using 3(4,5) False by simp
  qed
qed

lemma fuzz_ratio_le: "fuzz_ratio a b \<le> 100"
proof (cases "a = [] \<and> b = []")
  case True then show ?thesis by (simp add: fuzz_ratio_def)
next
  case False
  then have pos: "0 < length a + length b" by auto
  have "2 * lcs a b \<le> length a + length b" using lcs_le[of a b] by linarith
  then have "(of_nat (2 * lcs a b) :: rat) \<le> of_nat (length a + length b)"
    by (simp only: of_nat_le_iff)
  then have "(of_nat (2 * lcs a b) :: rat) / of_nat (length a + length b) \<le> 1"
    using pos by (simp add: divide_le_eq)
  then show ?thesis using False by (simp add: fuzz_ratio_def)
qed

lemma fuzz_ratio_refl: "fuzz_ratio a a = 100"
  by (cases "a = []") (simp_all add: fuzz_ratio_def lcs_refl)

lemma fuzz_ratio_full: "fuzz_ratio a b = 100 \<Longrightarrow> a = b"
proof (cases "a = [] \<and> b = []")
  case True then show ?thesis by simp
next
  case False
  assume h: "fuzz_ratio a b = 100"
  from False have pos: "0 < length a + length b" by auto
  define p :: rat where "p = of_nat (2 * lcs a b)"
  define q :: rat where "q = of_nat (length a + length b)"
  have q: "0 < q" using pos unfolding q_def by (simp only: of_nat_0_less_iff)
  have "100 * p / q = 100" using h False unfolding fuzz_ratio_def p_def q_def by simp
  then have "p = q" using q by (simp add: field_simps)
  then have "(of_nat (2 * lcs a b) :: rat) = of_nat (length a + length b)"
    unfolding p_def q_def .
  then have "2 * lcs a b = length a + length b" by (simp only: of_nat_eq_iff)
  then have "lcs a b = length a" "length a = length b" using lcs_le[of a b] by linarith+
  then show ?thesis by (rule lcs_full)
qed

lemma find_transfer:
  "find P xs = Some r \<Longrightarrow> Q r \<Longrightarrow> (\<forall>y\<in>set xs. Q y \<longrightarrow> P y) \<Longrightarrow> find Q xs = Some r"
  by (induction xs) (auto split: if_splits)

lemma find_Some_mem: "find P xs = Some r \<Longrightarrow> r \<in> set xs \<and> P r"
  by (induction xs) (auto split: if_splits)

lemma match_ingredient_idem_aux:
  assumes le: "\<forall>a b. ratio a b \<le> 100"
    and refl: "\<forall>a. ratio a a = 100"
    and full: "\<forall>a b. ratio a b = 100 \<longrightarrow> a = b"
    and t: "threshold \<le> 100"
    and m: "match_ingredient ratio x catalog threshold = Some r"
    and mem: "r \<in> set catalog"
  shows "match_ingredient ratio r catalog threshold = Some r"
proof -
  define sx where "sx = score_of ratio x"
  define sr where "sr = score_of ratio r"
  define Mx where "Mx = Max (set (map sx catalog))"
  define Mr where "Mr = Max (set (map sr catalog))"
  have sr_r: "sr r = 100" using refl by (simp add: sr_def score_of_def)
  have sr_le: "sr y \<le> 100" for y using le by (simp add: sr_def score_of_def)
  have Mr: "Mr = 100"
    unfolding Mr_def
    by (rule Max_eqI) (use sr_r sr_le mem in auto)
  have same: "clean_text y = clean_text r" if "sr y = 100" for y
    using that full[rule_format, of "clean_text r" "clean_text y"]
    by (simp add: sr_def score_of_def)
  have pos: "\<exists>y\<in>set catalog. 0 < sr y" using mem sr_r by force
  have res: "match_ingredient ratio r catalog threshold = find (\<lambda>y. sr y = 100) catalog"
    using pos t Mr unfolding Mr_def sr_def by (simp add: match_ingredient_char)
  have self: "\<not> (\<forall>y\<in>set catalog. \<not> 0 < sx y) \<or> x \<noteq> r"
    using mem refl by (force simp: sx_def score_of_def)
  have mx: "match_ingredient ratio x catalog threshold =
     (if \<exists>y\<in>set catalog. 0 < sx y
      then (if threshold \<le> Mx then find (\<lambda>y. sx y = Mx) catalog
            else (case find (shares_token x) catalog of Some y \<Rightarrow> Some y | None \<Rightarrow> Some x))
      else (if threshold \<le> 0 then None
            else (case find (shares_token x) catalog of Some y \<Rightarrow> Some y | None \<Rightarrow> Some x)))"
    unfolding sx_def Mx_def by (rule match_ingredient_char)
  have x_in: "100 \<le> Mx" if "x = r"
  proof -
    have "sx r \<le> Mx" unfolding Mx_def using mem by simp
    moreover have "sx r = 100" using that refl by (simp add: sx_def score_of_def)
    ultimately show ?thesis by simp
  qed
  consider (p1) "find (\<lambda>y. sx y = Mx) catalog = Some r"
    | (p2) "find (shares_token x) catalog = Some r"
    | (p3) "find (shares_token x) catalog = None" "x = r" "\<not> ((\<exists>y\<in>set catalog. 0 < sx y) \<and> threshold \<le> Mx)"
    using m unfolding mx by (auto split: if_splits option.splits)
  then have "find (\<lambda>y. sr y = 100) catalog = Some r"
  proof cases
    case p1
    have Pr: "sx r = Mx" using find_Some_mem[OF p1] by simp
    show ?thesis
    proof (rule find_transfer[where Q = "\<lambda>y. sr y = 100", OF p1 sr_r], intro ballI impI)
      fix y assume "y \<in> set catalog" "sr y = 100"
      then have "clean_text y = clean_text r" using same by blast
      then show "sx y = Mx" using Pr by (simp add: sx_def score_of_def)
    qed
  next
    case p2
    have Pr: "shares_token x r" using find_Some_mem[OF p2] by simp
    show ?thesis
    proof (rule find_transfer[where Q = "\<lambda>y. sr y = 100", OF p2 sr_r], intro ballI impI)
      fix y assume "y \<in> set catalog" "sr y = 100"
      then have "clean_text y = clean_text r" using same by blast
      then show "shares_token x y" using Pr by (simp add: shares_token_def)
    qed
  next
    case p3
    have "0 < sx r" using p3(2) refl by (simp add: sx_def score_of_def)
    then have "\<exists>y\<in>set catalog. 0 < sx y" using mem by blast
    moreover have "threshold \<le> Mx" using x_in[OF p3(2)] t by simp
    ultimately show ?thesis using p3(3) by blast
  qed
  then show ?thesis using res by simp
qed

lemmas match_eval =
  match_ingredient_def match_spec_def score_of_def shares_token_def fuzz_ratio_def Let_def

text \<open>
  C4. For every ingredient string, ordered catalogue and threshold, the matcher returns: the
  first catalogue name, in scan order, whose similarity to the input (both normalised) is the
  maximum over the catalogue, in its original spelling, when that maximum reaches the
  threshold; otherwise the first catalogue name sharing a whitespace token with the normalised
  input; otherwise the input unchanged. The one exception is a threshold of at most 0 with no
  catalogue name of positive similarity: the first loop then leaves \<open>best_match\<close> at \<open>None\<close>,
  the test \<open>highest_score >= threshold\<close> succeeds and the function returns \<open>None\<close>.
\<close>

theorem match_ingredient_phases:
  "match_ingredient ratio x catalog threshold =
     (if threshold \<le> 0 \<and> (\<forall>r\<in>set catalog. score_of ratio x r \<le> 0) then None
      else match_spec ratio x catalog threshold)"
proof (cases "\<exists>r\<in>set catalog. 0 < score_of ratio x r")
  case True
  then have "catalog \<noteq> []" by auto
  then have eq: "match_ingredient ratio x catalog threshold = match_spec ratio x catalog threshold"
    using True by (simp add: match_ingredient_char match_spec_def)
  have ne: "\<not> (threshold \<le> 0 \<and> (\<forall>r\<in>set catalog. score_of ratio x r \<le> 0))"
    using True by force
  show ?thesis unfolding eq by (simp only: ne if_False)
next
  case False
  then have all: "\<forall>r\<in>set catalog. score_of ratio x r \<le> 0" by force
  show ?thesis
  proof (cases "threshold \<le> 0")
    case True
    then show ?thesis using False all by (simp add: match_ingredient_char)
  next
    case pos: False
    have "\<not> (catalog \<noteq> [] \<and> threshold \<le> Max (set (map (score_of ratio x) catalog)))"
    proof
      assume a: "catalog \<noteq> [] \<and> threshold \<le> Max (set (map (score_of ratio x) catalog))"
      then have "Max (set (map (score_of ratio x) catalog)) \<in> set (map (score_of ratio x) catalog)"
        by (intro Max_in) auto
      then obtain r where "r \<in> set catalog"
        "score_of ratio x r = Max (set (map (score_of ratio x) catalog))"
        by auto
      then show False using all a pos by force
    qed
    then show ?thesis using False pos
      by (simp only: match_ingredient_char match_spec_def if_False) simp
  qed
qed

theorem match_ingredient_phases_witness:
  "match_ingredient fuzz_ratio ''Sugr'' [''Salt'', ''Sugar''] 80 = Some ''Sugar''
   \<and> match_spec fuzz_ratio ''Sugr'' [''Salt'', ''Sugar''] 80 = Some ''Sugar''
   \<and> match_ingredient fuzz_ratio ''Cane-Sugar syrup'' [''Salt'', ''Sugar''] 80 = Some ''Sugar''
   \<and> match_ingredient fuzz_ratio ''Unknownite'' [''Salt'', ''Sugar''] 80 = Some ''Unknownite''
   \<and> match_ingredient fuzz_ratio ''Sugr'' [''Salt'', ''Sugar''] 0 = Some ''Sugar''
   \<and> match_ingredient fuzz_ratio ''abc'' [] 0 = None"
  using match_ingredient_phases[of fuzz_ratio "''Sugr''" "[''Salt'', ''Sugar'']" 80]
  by (simp add: match_eval text_eval)

text \<open>
  With threshold 0 and a catalogue in which no name has a positive similarity the function
  returns \<open>None\<close>, where the claim gives the first catalogue name: the maximum, 0, reaches the
  threshold.
\<close>

theorem match_ingredient_threshold_counterexample:
  "match_ingredient fuzz_ratio ''abc'' [''xyz''] 0 = None
   \<and> match_spec fuzz_ratio ''abc'' [''xyz''] 0 = Some ''xyz''"
  by (simp add: match_eval text_eval)

text \<open>
  C9. When the matcher returns a name that is itself in the catalogue, matching that name
  again returns it unchanged. The similarity is the library's: at most 100, and 100
  exactly on equal strings; the threshold is at most 100 (the default is 80).
\<close>

theorem match_ingredient_idempotent:
  assumes "\<forall>a b. ratio a b \<le> 100"
    and "\<forall>a. ratio a a = 100"
    and "\<forall>a b. ratio a b = 100 \<longrightarrow> a = b"
    and "threshold \<le> 100"
    and "match_ingredient ratio x catalog threshold = Some r"
    and "r \<in> set catalog"
  shows "match_ingredient ratio (the (match_ingredient ratio x catalog threshold)) catalog threshold
           = match_ingredient ratio x catalog threshold"
  using match_ingredient_idem_aux[OF assms] assms(5) by simp

theorem match_ingredient_idempotent_witness:
  "match_ingredient fuzz_ratio ''Sugr'' [''Salt'', ''Sugar''] 80 = Some ''Sugar''
   \<and> ''Sugar'' \<in> set [''Salt'', ''Sugar'']
   \<and> match_ingredient fuzz_ratio ''Sugar'' [''Salt'', ''Sugar''] 80 = Some ''Sugar''"
proof -
  have a: "\<forall>a b. fuzz_ratio a b \<le> 100" using fuzz_ratio_le by blast
  have b: "\<forall>a. fuzz_ratio a a = 100" using fuzz_ratio_refl by blast
  have c: "\<forall>a b. fuzz_ratio a b = 100 \<longrightarrow> a = b" using fuzz_ratio_full by blast
  have d: "(80 :: rat) \<le> 100" by simp
  have e: "match_ingredient fuzz_ratio ''Sugr'' [''Salt'', ''Sugar''] 80 = Some ''Sugar''"
    by (simp add: match_eval text_eval)
  have f: "''Sugar'' \<in> set [''Salt'', ''Sugar'']" by simp
  from match_ingredient_idempotent[OF a b c d e f] e f show ?thesis by simp
qed

section \<open>Properties of the nutrient evaluator\<close>

lemma evaluate_loop_spec:
  "list_all (parses ni) rows \<Longrightarrow>
   evaluate_loop ni rows pros cons =
     Inr (pros @ List.map_filter pro_text (findings_spec ni rows),
          cons @ List.map_filter con_text (findings_spec ni rows))"
proof (induction rows arbitrary: pros cons)
  case Nil
  then show ?case by (simp add: findings_spec_def List.map_filter_simps)
next
  case (Cons row rows)
  then have ih: "\<And>pros cons. evaluate_loop ni rows pros cons =
     Inr (pros @ List.map_filter pro_text (findings_spec ni rows),
          cons @ List.map_filter con_text (findings_spec ni rows))"
    and p: "parses ni row" by simp_all
  show ?case
  proof (cases "map_of ni (nutrient row)")
    case None
    then show ?thesis by (simp add: ih findings_spec_def present_def)
  next
    case (Some v)
    show ?thesis
    proof (cases "v = NNull")
      case True
      then show ?thesis using Some by (simp add: ih findings_spec_def present_def)
    next
      case False
      then obtain x where x: "coerce v = Inr x"
        using p Some by (auto simp: parses_def split: sum.splits)
      have pr: "present ni row" using Some False by (simp add: present_def)
      have vo: "value_of ni row = x" using Some x by (simp add: value_of_def)
      have fs: "findings_spec ni (row # rows) = render row (row_band row x) # findings_spec ni rows"
        using pr vo by (simp add: findings_spec_def)
      show ?thesis using Some False x
        by (simp add: ih fs row_band_def band_of_def Let_def List.map_filter_simps)
    qed
  qed
qed

lemma band_of_iff:
  "low \<le> high \<Longrightarrow>
   (band_of low high v = Low \<longleftrightarrow> v < low)
   \<and> (band_of low high v = High \<longleftrightarrow> v > high)
   \<and> (band_of low high v = Balanced \<longleftrightarrow> low \<le> v \<and> v \<le> high)"
  by (auto simp: band_of_def)

lemma pro_con_length:
  "length (List.map_filter pro_text fs) + length (List.map_filter con_text fs) = length fs"
proof (induction fs)
  case Nil then show ?case by (simp add: List.map_filter_simps)
next
  case (Cons f fs) then show ?case by (cases f) (simp_all add: List.map_filter_simps)
qed

text \<open>
  C6. When the values of the table's nutrients are numbers or strings that parse, every
  table row whose nutrient is present with a non-null value \<open>v\<close> gives exactly one finding:
  the con "Low" iff \<open>v\<close> is below the low threshold, the con "High" iff \<open>v\<close> is above the
  high threshold, the pro "Balanced" otherwise, so a value equal to a bound is balanced
  (thresholds with low at most high, the invariant of the table); no row gives both a pro
  and a con, and pros and cons come in table order.
\<close>

theorem evaluate_nutrition_findings:
  assumes "list_all (parses ni) table"
  shows "evaluate_nutrition ni table =
           Inr (List.map_filter pro_text (findings_spec ni table),
                List.map_filter con_text (findings_spec ni table))
         \<and> findings_spec ni table =
             map (\<lambda>row. render row (row_band row (value_of ni row))) (filter (present ni) table)
         \<and> length (List.map_filter pro_text (findings_spec ni table))
             + length (List.map_filter con_text (findings_spec ni table))
             = length (filter (present ni) table)
         \<and> (\<forall>low high v. low \<le> high \<longrightarrow>
               (band_of low high v = Low \<longleftrightarrow> v < low)
               \<and> (band_of low high v = High \<longleftrightarrow> v > high)
               \<and> (band_of low high v = Balanced \<longleftrightarrow> low \<le> v \<and> v \<le> high))"
proof -
  have a: "evaluate_nutrition ni table =
           Inr (List.map_filter pro_text (findings_spec ni table),
                List.map_filter con_text (findings_spec ni table))"
    unfolding evaluate_nutrition_def using evaluate_loop_spec[OF assms, of "[]" "[]"] by simp
  have b: "length (List.map_filter pro_text (findings_spec ni table))
             + length (List.map_filter con_text (findings_spec ni table))
             = length (filter (present ni) table)"
    unfolding pro_con_length by (simp add: findings_spec_def)
  show ?thesis using a b band_of_iff by (simp add: findings_spec_def)
qed

lemma findings_examples:
  "list_all (parses [(''sugar_g'', NStr ''12.5 g''), (''sodium_mg'', NNum 100), (''fat_g'', NNull),
                     (''fiber_g'', NNum (1 / 2))])
     [\<lparr>nutrient = ''sugar_g'', low_threshold = 0, high_threshold = 10, note_text = ''per 100g''\<rparr>,
      \<lparr>nutrient = ''sodium_mg'', low_threshold = 0, high_threshold = 100, note_text = ''n''\<rparr>,
      \<lparr>nutrient = ''fat_g'', low_threshold = 0, high_threshold = 100, note_text = ''n''\<rparr>,
      \<lparr>nutrient = ''fiber_g'', low_threshold = 3, high_threshold = 100, note_text = ''daily''\<rparr>]"
  "List.map_filter pro_text (findings_spec
     [(''sugar_g'', NStr ''12.5 g''), (''sodium_mg'', NNum 100), (''fat_g'', NNull),
      (''fiber_g'', NNum (1 / 2))]
     [\<lparr>nutrient = ''sugar_g'', low_threshold = 0, high_threshold = 10, note_text = ''per 100g''\<rparr>,
      \<lparr>nutrient = ''sodium_mg'', low_threshold = 0, high_threshold = 100, note_text = ''n''\<rparr>,
      \<lparr>nutrient = ''fat_g'', low_threshold = 0, high_threshold = 100, note_text = ''n''\<rparr>,
      \<lparr>nutrient = ''fiber_g'', low_threshold = 3, high_threshold = 100, note_text = ''daily''\<rparr>])
   = [''Balanced sodium_mg'']"
  "List.map_filter con_text (findings_spec
     [(''sugar_g'', NStr ''12.5 g''), (''sodium_mg'', NNum 100), (''fat_g'', NNull),
      (''fiber_g'', NNum (1 / 2))]
     [\<lparr>nutrient = ''sugar_g'', low_threshold = 0, high_threshold = 10, note_text = ''per 100g''\<rparr>,
      \<lparr>nutrient = ''sodium_mg'', low_threshold = 0, high_threshold = 100, note_text = ''n''\<rparr>,
      \<lparr>nutrient = ''fat_g'', low_threshold = 0, high_threshold = 100, note_text = ''n''\<rparr>,
      \<lparr>nutrient = ''fiber_g'', low_threshold = 3, high_threshold = 100, note_text = ''daily''\<rparr>])
   = [''High sugar_g (per 100g)'', ''Low fiber_g (daily)'']"
  by code_simp+

theorem evaluate_nutrition_findings_witness:
  "evaluate_nutrition
     [(''sugar_g'', NStr ''12.5 g''), (''sodium_mg'', NNum 100), (''fat_g'', NNull),
      (''fiber_g'', NNum (1 / 2))]
     [\<lparr>nutrient = ''sugar_g'', low_threshold = 0, high_threshold = 10, note_text = ''per 100g''\<rparr>,
      \<lparr>nutrient = ''sodium_mg'', low_threshold = 0, high_threshold = 100, note_text = ''n''\<rparr>,
      \<lparr>nutrient = ''fat_g'', low_threshold = 0, high_threshold = 100, note_text = ''n''\<rparr>,
      \<lparr>nutrient = ''fiber_g'', low_threshold = 3, high_threshold = 100, note_text = ''daily''\<rparr>]
   = Inr ([''Balanced sodium_mg''], [''High sugar_g (per 100g)'', ''Low fiber_g (daily)''])"
  using evaluate_nutrition_findings[OF findings_examples(1)] findings_examples(2,3)
  by simp

lemma not_digit_dot [simp]: "\<not> is_digit (CHR ''.'')"
  by (simp add: is_digit_def)

lemma coerce_no_digit:
  assumes "\<forall>c\<in>set s. \<not> is_digit c"
  shows "coerce (NStr s) = Inl IndexError \<or> coerce (NStr s) = Inl ValueError"
proof (cases "dropWhile (\<lambda>c. \<not> is_num_char c) s")
  case Nil
  have "first_number s = Inl IndexError" by (simp only: first_number_def Nil list.simps)
  then show ?thesis by (simp add: coerce_def)
next
  case (Cons c cs)
  define t where "t = takeWhile is_num_char (c # cs)"
  have fn: "first_number s = Inr t" using Cons by (simp add: first_number_def t_def)
  have sub: "set t \<subseteq> set s"
  proof -
    have "set t \<subseteq> set (c # cs)" unfolding t_def by (auto dest: set_takeWhileD)
    also have "\<dots> \<subseteq> set s" using Cons set_dropWhileD[of _ "\<lambda>c. \<not> is_num_char c" s] by auto
    finally show ?thesis .
  qed
  have dots: "\<forall>d\<in>set t. d = CHR ''.''"
  proof
    fix d assume d: "d \<in> set t"
    then have "is_num_char d" unfolding t_def by (auto dest: set_takeWhileD)
    moreover have "\<not> is_digit d" using d sub assms by blast
    ultimately show "d = CHR ''.''" by (simp add: is_num_char_def)
  qed
  have "is_num_char c" using Cons hd_dropWhile[of "\<lambda>c. \<not> is_num_char c" s] by force
  then obtain t' where t: "t = c # t'" by (simp add: t_def)
  then have c: "c = CHR ''.''" and t': "\<forall>d\<in>set t'. d = CHR ''.''" using dots by simp_all
  have "list_all is_digit t' \<Longrightarrow> t' = []"
    using t' by (cases t') (auto simp: list_all_iff)
  then have "py_float t = Inl ValueError"
    unfolding t c by (auto simp: py_float_def)
  then show ?thesis using fn by (simp add: coerce_def)
qed

lemma coerce_error_kind:
  "coerce v = Inl e \<Longrightarrow> v \<noteq> NNull \<Longrightarrow> e = IndexError \<or> e = ValueError"
  by (cases v)
     (auto simp: coerce_def first_number_def py_float_def Let_def
           split: sum.splits list.splits if_splits)

lemma evaluate_loop_fails:
  assumes "row \<in> set rows" "map_of ni (nutrient row) = Some (NStr s)" "\<forall>c\<in>set s. \<not> is_digit c"
  shows "\<exists>e. evaluate_loop ni rows pros cons = Inl e \<and> (e = IndexError \<or> e = ValueError)"
  using assms(1)
proof (induction rows arbitrary: pros cons)
  case Nil
  then show ?case by simp
next
  case (Cons r rows)
  show ?case
  proof (cases "r = row")
    case True
    then show ?thesis using assms(2) coerce_no_digit[OF assms(3)] by auto
  next
    case False
    then have mem: "row \<in> set rows" using Cons.prems by simp
    note ih = Cons.IH[OF mem]
    show ?thesis
    proof (cases "map_of ni (nutrient r)")
      case None
      then show ?thesis using ih by simp
    next
      case (Some v)
      show ?thesis
      proof (cases "v = NNull")
        case True
        then show ?thesis using Some ih by simp
      next
        case nn: False
        show ?thesis
        proof (cases "coerce v")
          case (Inl e)
          then show ?thesis using Some nn coerce_error_kind[OF Inl nn] by simp
        next
          case (Inr x)
          then show ?thesis using Some nn ih by (simp add: Let_def)
        qed
      qed
    qed
  qed
qed

text \<open>
  C7 (as amended). For every nutrient of the threshold table whose supplied value is a string
  with no digit, so with no numeric substring, the evaluation fails as a whole: the error of
  the failed extraction (\<open>IndexError\<close> when the string has no digit and no dot, \<open>ValueError\<close>
  when it has only dots) reaches the caller, and \<open>analyze_product\<close> fails with it; no findings
  are returned.
\<close>

theorem evaluate_nutrition_parse_error:
  assumes "row \<in> set table"
    and "map_of ni (nutrient row) = Some (NStr s)"
    and "\<forall>c\<in>set s. \<not> is_digit c"
  shows "(\<exists>e. evaluate_nutrition ni table = Inl e \<and> (e = IndexError \<or> e = ValueError))
         \<and> (\<exists>e. analyze_product ratio \<lparr>ingredients = ing, nutrition = Some ni, product_name = pn\<rparr>
                  df table il = Inl e)"
proof -
  obtain e where e: "evaluate_nutrition ni table = Inl e" "e = IndexError \<or> e = ValueError"
    unfolding evaluate_nutrition_def using evaluate_loop_fails[OF assms] by blast
  have "\<exists>e. analyze_product ratio \<lparr>ingredients = ing, nutrition = Some ni, product_name = pn\<rparr>
                  df table il = Inl e"
    using e(1) by (simp add: analyze_product_def Let_def split: sum.splits)
  then show ?thesis using e by blast
qed

lemma parse_error_examples:
  "evaluate_nutrition [(''sugar_g'', NStr ''trace'')]
       [\<lparr>nutrient = ''sugar_g'', low_threshold = 0, high_threshold = 10, note_text = ''n''\<rparr>]
     = Inl IndexError"
  "evaluate_nutrition [(''sugar_g'', NStr ''n.a.'')]
       [\<lparr>nutrient = ''sugar_g'', low_threshold = 0, high_threshold = 10, note_text = ''n''\<rparr>]
     = Inl ValueError"
  by code_simp+

theorem evaluate_nutrition_parse_error_witness:
  "evaluate_nutrition [(''sugar_g'', NStr ''trace'')]
       [\<lparr>nutrient = ''sugar_g'', low_threshold = 0, high_threshold = 10, note_text = ''n''\<rparr>]
     = Inl IndexError
   \<and> evaluate_nutrition [(''sugar_g'', NStr ''n.a.'')]
       [\<lparr>nutrient = ''sugar_g'', low_threshold = 0, high_threshold = 10, note_text = ''n''\<rparr>]
     = Inl ValueError"
proof -
  have h: "\<forall>c\<in>set ''trace''. \<not> is_digit c" by (simp add: is_digit_def)
  have "\<exists>e. evaluate_nutrition [(''sugar_g'', NStr ''trace'')]
       [\<lparr>nutrient = ''sugar_g'', low_threshold = 0, high_threshold = 10, note_text = ''n''\<rparr>] = Inl e
       \<and> (e = IndexError \<or> e = ValueError)"
    using evaluate_nutrition_parse_error[of
      "\<lparr>nutrient = ''sugar_g'', low_threshold = 0, high_threshold = 10, note_text = ''n''\<rparr>"
      "[\<lparr>nutrient = ''sugar_g'', low_threshold = 0, high_threshold = 10, note_text = ''n''\<rparr>]"
      "[(''sugar_g'', NStr ''trace'')]" "''trace''", OF _ _ h]
    by simp
  then show ?thesis using parse_error_examples by simp
qed

text \<open>
  A nutrient that has no row in the threshold table is never looked at: its string without a
  number is skipped and the call returns the findings of the other nutrients.
\<close>

theorem evaluate_nutrition_skip_counterexample:
  "map_of [(''sugar_g'', NNum 5), (''vitamin_x'', NStr ''trace'')] ''vitamin_x'' = Some (NStr ''trace'')
   \<and> coerce (NStr ''trace'') = Inl IndexError
   \<and> evaluate_nutrition [(''sugar_g'', NNum 5), (''vitamin_x'', NStr ''trace'')]
       [\<lparr>nutrient = ''sugar_g'', low_threshold = 0, high_threshold = 10, note_text = ''n''\<rparr>]
     = Inr ([''Balanced sugar_g''], [])"
  by code_simp

section \<open>Properties of the classifier\<close>

lemma match_ingredient_returns:
  assumes "0 < t"
  shows "\<exists>r. match_ingredient ratio x cat t = Some r"
proof (cases "\<exists>r\<in>set cat. 0 < score_of ratio x r")
  case True
  then have ne: "cat \<noteq> []" by auto
  define M where "M = Max (set (map (score_of ratio x) cat))"
  have "M \<in> set (map (score_of ratio x) cat)" unfolding M_def using ne by (intro Max_in) auto
  then obtain r where "r \<in> set cat" "score_of ratio x r = M" by auto
  then have f: "find (\<lambda>r. score_of ratio x r = M) cat \<noteq> None" by (auto simp: find_None_iff)
  have "match_ingredient ratio x cat t =
          (if t \<le> M then find (\<lambda>r. score_of ratio x r = M) cat
           else (case find (shares_token x) cat of Some r \<Rightarrow> Some r | None \<Rightarrow> Some x))"
    unfolding M_def by (simp only: match_ingredient_char True if_True)
  then show ?thesis using f by (auto split: option.splits)
next
  case False
  then show ?thesis using assms by (auto simp: match_ingredient_char split: option.splits)
qed

lemma detect_one_returns: "\<exists>f. detect_one ratio df il i = Inr f"
proof -
  obtain r where "match_ingredient ratio i il 80 = Some r"
    using match_ingredient_returns[of 80 ratio i il] by auto
  then show ?thesis by (simp add: detect_one_def split: list.splits)
qed

lemma detect_loop_findings:
  "\<exists>fs. detect_loop ratio df il xs acc = Inr (acc @ fs)
        \<and> list_all2 (\<lambda>i f. detect_one ratio df il i = Inr f) xs fs"
proof (induction xs arbitrary: acc)
  case Nil
  then show ?case by simp
next
  case (Cons i xs)
  obtain f where f: "detect_one ratio df il i = Inr f" using detect_one_returns by blast
  obtain fs where fs: "detect_loop ratio df il xs (acc @ [f]) = Inr ((acc @ [f]) @ fs)"
    "list_all2 (\<lambda>i f. detect_one ratio df il i = Inr f) xs fs"
    using Cons.IH[of "acc @ [f]"] by blast
  have "detect_loop ratio df il (i # xs) acc = Inr (acc @ f # fs)" using f fs(1) by simp
  moreover have "list_all2 (\<lambda>i f. detect_one ratio df il i = Inr f) (i # xs) (f # fs)"
    using f fs(2) by simp
  ultimately show ?case by blast
qed

lemma order_get_tiers:
  "order_get (tier_name Unsafe) = 0 \<and> order_get (tier_name Caution) = 1
   \<and> order_get (tier_name Safe) = 2 \<and> order_get (tier_name Unknown) = 3"
  by (simp add: order_get_def)

text \<open>
  C5. For every product record the classifier returns: the findings of the ingredient strings,
  sorted by the rank of their status (unsafe 0, caution 1, safe 2, unknown 3) in
  non-decreasing order, the findings of equal rank in the order of the input strings; this
  sequence is the \<open>ingredient_analysis\<close> of the result of \<open>analyze_product\<close>.
\<close>

theorem ingredient_analysis_sorted:
  "\<exists>fs res.
      list_all2 (\<lambda>i f. detect_one ratio df il i = Inr f) (ingredients_of product) fs
      \<and> detect_ingredients ratio (ingredients_of product) df il = Inr res
      \<and> sorted (map (\<lambda>f. order_get (status f)) res)
      \<and> (\<forall>k. filter (\<lambda>f. order_get (status f) = k) res
               = filter (\<lambda>f. order_get (status f) = k) fs)
      \<and> (\<forall>d. analyze_product ratio product df ndf il = Inr d
               \<longrightarrow> map_of d ''ingredient_analysis'' = Some (PFindings res))
      \<and> order_get (tier_name Unsafe) = 0 \<and> order_get (tier_name Caution) = 1
      \<and> order_get (tier_name Safe) = 2 \<and> order_get (tier_name Unknown) = 3"
proof -
  obtain fs where fs: "detect_loop ratio df il (ingredients_of product) [] = Inr fs"
    "list_all2 (\<lambda>i f. detect_one ratio df il i = Inr f) (ingredients_of product) fs"
    using detect_loop_findings[of ratio df il "ingredients_of product" "[]"] by auto
  define res where "res = sort_key (\<lambda>x. order_get (status x)) fs"
  have r: "detect_ingredients ratio (ingredients_of product) df il = Inr res"
    by (simp add: detect_ingredients_def fs(1) res_def)
  have s: "sorted (map (\<lambda>f. order_get (status f)) res)" unfolding res_def by (rule sorted_sort_key)
  have st: "\<forall>k. filter (\<lambda>f. order_get (status f) = k) res
               = filter (\<lambda>f. order_get (status f) = k) fs"
    unfolding res_def by (simp add: sort_key_stable)
  have a: "\<forall>d. analyze_product ratio product df ndf il = Inr d
               \<longrightarrow> map_of d ''ingredient_analysis'' = Some (PFindings res)"
    using r by (auto simp: analyze_product_def ingredients_of_def Let_def split: sum.splits prod.splits)
  show ?thesis using fs(2) r s st a order_get_tiers by blast
qed

lemma detect_examples:
  "detect_ingredients fuzz_ratio [''Sugar'', ''Zzz'', ''Salt'', ''Oil'']
     [\<lparr>ingredient_name = ''sugar'', safety_status = ''caution'', reason_for_unsafety = ''r1''\<rparr>,
      \<lparr>ingredient_name = ''salt'', safety_status = ''caution'', reason_for_unsafety = ''r2''\<rparr>,
      \<lparr>ingredient_name = ''oil'', safety_status = ''unsafe'', reason_for_unsafety = ''r3''\<rparr>]
     [''sugar'', ''salt'', ''oil'']
   = Inr [\<lparr>name = ''oil'', status = ''unsafe'', reason = ''r3''\<rparr>,
          \<lparr>name = ''sugar'', status = ''caution'', reason = ''r1''\<rparr>,
          \<lparr>name = ''salt'', status = ''caution'', reason = ''r2''\<rparr>,
          \<lparr>name = ''Zzz'', status = ''unknown'', reason = ''No information available''\<rparr>]"
  "analyze_product fuzz_ratio
     \<lparr>ingredients = Some [''Sugar'', ''Zzz'', ''Salt'', ''Oil''], nutrition = None,
      product_name = Some ''Bar''\<rparr>
     [\<lparr>ingredient_name = ''sugar'', safety_status = ''caution'', reason_for_unsafety = ''r1''\<rparr>,
      \<lparr>ingredient_name = ''salt'', safety_status = ''caution'', reason_for_unsafety = ''r2''\<rparr>,
      \<lparr>ingredient_name = ''oil'', safety_status = ''unsafe'', reason_for_unsafety = ''r3''\<rparr>]
     []
     [''sugar'', ''salt'', ''oil'']
   = Inr [(''product_name'', PStr ''Bar''),
          (''ingredient_analysis'', PFindings
             [\<lparr>name = ''oil'', status = ''unsafe'', reason = ''r3''\<rparr>,
              \<lparr>name = ''sugar'', status = ''caution'', reason = ''r1''\<rparr>,
              \<lparr>name = ''salt'', status = ''caution'', reason = ''r2''\<rparr>,
              \<lparr>name = ''Zzz'', status = ''unknown'', reason = ''No information available''\<rparr>]),
          (''nutrition_pros'', PStrList []),
          (''nutrition_cons'', PStrList [])]"
  by code_simp+

theorem ingredient_analysis_sorted_witness:
  "detect_ingredients fuzz_ratio [''Sugar'', ''Zzz'', ''Salt'', ''Oil'']
     [\<lparr>ingredient_name = ''sugar'', safety_status = ''caution'', reason_for_unsafety = ''r1''\<rparr>,
      \<lparr>ingredient_name = ''salt'', safety_status = ''caution'', reason_for_unsafety = ''r2''\<rparr>,
      \<lparr>ingredient_name = ''oil'', safety_status = ''unsafe'', reason_for_unsafety = ''r3''\<rparr>]
     [''sugar'', ''salt'', ''oil'']
   = Inr [\<lparr>name = ''oil'', status = ''unsafe'', reason = ''r3''\<rparr>,
          \<lparr>name = ''sugar'', status = ''caution'', reason = ''r1''\<rparr>,
          \<lparr>name = ''salt'', status = ''caution'', reason = ''r2''\<rparr>,
          \<lparr>name = ''Zzz'', status = ''unknown'', reason = ''No information available''\<rparr>]
   \<and> sorted (map (\<lambda>f. order_get (status f))
        [\<lparr>name = ''oil'', status = ''unsafe'', reason = ''r3''\<rparr>,
         \<lparr>name = ''sugar'', status = ''caution'', reason = ''r1''\<rparr>,
         \<lparr>name = ''salt'', status = ''caution'', reason = ''r2''\<rparr>,
         \<lparr>name = ''Zzz'', status = ''unknown'', reason = ''No information available''\<rparr>])"
proof -
  let ?p = "\<lparr>ingredients = Some [''Sugar'', ''Zzz'', ''Salt'', ''Oil''], nutrition = None,
      product_name = Some ''Bar''\<rparr>"
  have i: "ingredients_of ?p = [''Sugar'', ''Zzz'', ''Salt'', ''Oil'']" by (simp add: ingredients_of_def)
  from ingredient_analysis_sorted[of fuzz_ratio
     "[\<lparr>ingredient_name = ''sugar'', safety_status = ''caution'', reason_for_unsafety = ''r1''\<rparr>,
      \<lparr>ingredient_name = ''salt'', safety_status = ''caution'', reason_for_unsafety = ''r2''\<rparr>,
      \<lparr>ingredient_name = ''oil'', safety_status = ''unsafe'', reason_for_unsafety = ''r3''\<rparr>]"
     "[''sugar'', ''salt'', ''oil'']" ?p "[]"]
  show ?thesis unfolding i detect_examples(1) by auto
qed

section \<open>Properties of the orchestrator and its score\<close>

lemma fl_half [simp]: "fl (1 / 2) = 1 / 2"
  using fl_pow2[of "- 1"] by (simp add: power_int_minus_divide)

lemma fl_half_int: "\<bar>m\<bar> \<le> 2 ^ 53 \<Longrightarrow> fl (of_int m / 2) = of_int m / 2"
  using fl_representable[of m "- 1"] by (simp add: power_int_minus_divide)

lemma pros_cons_value:
  assumes "length pros < 2 ^ 32" "length cons < 2 ^ 32"
  shows "compute_nutrition_score_from_pros_cons pros cons
           = fl (pros_cons_formula (length pros) (length cons))"
proof -
  define p where "p = int (length pros)"
  define c where "c = int (length cons)"
  define P :: rat where "P = of_int p"
  define C :: rat where "C = of_int c"
  have p: "0 \<le> p" "p < 2 ^ 32" using assms by (simp_all add: p_def)
  have c: "0 \<le> c" "c < 2 ^ 32" using assms by (simp_all add: c_def)
  have P: "0 \<le> P" "P < 2 ^ 32"
    using p by (simp_all add: P_def)
  have C: "0 \<le> C" "C < 2 ^ 32"
    using c by (simp_all add: C_def)
  have natP: "(of_nat (length pros) :: rat) = P" by (simp add: P_def p_def)
  have natC: "(of_nat (length cons) :: rat) = C" by (simp add: C_def c_def)
  have flP: "fl P = P" unfolding P_def using p by (intro fl_of_int) simp
  have flC: "fl C = C" unfolding C_def using c by (intro fl_of_int) simp
  have h1: "fl (P * (1 / 2)) = P / 2"
    unfolding P_def using fl_half_int[of p] p by simp
  have eq: "5 + P / 2 = of_int (10 + p) / 2" by (simp add: P_def)
  have b1: "fl (5 + P / 2) = 5 + P / 2"
    unfolding eq using p by (intro fl_half_int) simp
  define c7 where "c7 = fl (7 / 10)"
  define d1 :: rat where "d1 = 1 / 2 ^ 54"
  define d2 :: rat where "d2 = 1 / 2 ^ 22"
  define d3 :: rat where "d3 = 1 / 2 ^ 21"
  have "\<bar>(7::rat) / 10\<bar> < 2 powi (- 1 + 1)" by simp
  from fl_abs_err[OF this] have e7: "\<bar>c7 - 7 / 10\<bar> \<le> d1"
    by (simp add: c7_def d1_def power_int_minus_divide)
  have c7r: "0 \<le> c7" "c7 \<le> 1"
    using fl_nonneg[of "7 / 10"] fl_mono[of "7 / 10" 1] by (simp_all add: c7_def)
  have Cc7: "0 \<le> C * c7" "C * c7 < 2 ^ 32"
  proof -
    show "0 \<le> C * c7" using C c7r by simp
    have "C * c7 \<le> C * 1" using C c7r by (intro mult_left_mono) simp_all
    then show "C * c7 < 2 ^ 32" using C by simp
  qed
  define X where "X = fl (C * c7)"
  have "\<bar>C * c7\<bar> < 2 powi (31 + 1)" using Cc7 by simp
  from fl_abs_err[OF this] have eX: "\<bar>X - C * c7\<bar> \<le> d2"
    by (simp add: X_def d2_def power_int_minus_divide)
  have "\<bar>C * c7 - C * (7 / 10)\<bar> = \<bar>C * (c7 - 7 / 10)\<bar>"
    by (simp only: right_diff_distrib)
  also have "\<dots> = C * \<bar>c7 - 7 / 10\<bar>"
    using C(1) by (simp only: abs_mult abs_of_nonneg)
  also have "\<dots> \<le> 2 ^ 32 * d1" using C e7 by (intro mult_mono) simp_all
  also have "\<dots> = d2" by (simp add: d1_def d2_def)
  finally have eC: "\<bar>C * c7 - C * (7 / 10)\<bar> \<le> d2" .
  have X: "\<bar>X - 7 * C / 10\<bar> \<le> 2 * d2" using eX eC by linarith
  have d2: "0 < d2" "d2 \<le> 1" by (simp_all add: d2_def)
  define B where "B = fl (5 + P / 2 - X)"
  have PC: "P < 4294967296" "C < 4294967296" using P C by simp_all
  have "\<bar>5 + P / 2 - X\<bar> < 8589934592" using P(1) C(1) PC X d2 by linarith
  then have "\<bar>5 + P / 2 - X\<bar> < 2 powi (32 + 1)" by simp
  from fl_abs_err[OF this] have eB: "\<bar>B - (5 + P / 2 - X)\<bar> \<le> d3"
    by (simp add: B_def d3_def power_int_minus_divide)
  define E where "E = 5 + P / 2 - 7 * C / 10"
  have d3: "d3 = 2 * d2" by (simp add: d2_def d3_def)
  have BE: "\<bar>B - E\<bar> \<le> 4 * d2" using eB X unfolding E_def d3 by linarith
  define k where "k = max 0 (min 1000 (500 + 50 * p - 70 * c))"
  define k0 where "k0 = 500 + 50 * p - 70 * c"
  have Ek: "E = of_int k0 / 100" by (simp add: E_def k0_def P_def C_def)
  have kE: "max 0 (min 10 E) = of_int k / 100"
    unfolding k_def k0_def[symmetric] Ek by (auto simp: max_def min_def)
  have "\<bar>max 0 (min 10 B) - max 0 (min 10 E)\<bar> \<le> 4 * d2" using BE by linarith
  moreover have "4 * d2 < 1 / 200" by (simp add: d2_def)
  ultimately have "\<bar>max 0 (min 10 B) - of_int k / 100\<bar> < 1 / 200" unfolding kE by linarith
  then have r: "round2 (max 0 (min 10 B)) = fl (of_int k / 100)"
    unfolding round2_def by (simp add: hundredths_near)
  have sc: "compute_nutrition_score_from_pros_cons pros cons = round2 (max 0 (min 10 B))"
  proof -
    have "compute_nutrition_score_from_pros_cons pros cons =
            round2 (max 0 (min 10 (fl (fl (5 + fl (fl P * fl (1 / 2))) - fl (fl C * fl (7 / 10))))))"
      by (simp only: compute_nutrition_score_from_pros_cons_def Let_def natP natC)
    also have "\<dots> = round2 (max 0 (min 10 B))"
      by (simp only: flP flC fl_half h1 b1 B_def X_def c7_def)
    finally show ?thesis .
  qed
  have f: "pros_cons_formula (length pros) (length cons) = max 0 (min 10 E)"
    by (simp add: pros_cons_formula_def E_def natP natC)
  show ?thesis unfolding sc r f kE ..
qed

lemma analyze_product_result:
  assumes "analyze_product ratio product df ndf il = Inr d"
  shows "\<exists>pn ia pros cons. d = [(''product_name'', PStr pn), (''ingredient_analysis'', PFindings ia),
                                   (''nutrition_pros'', PStrList pros), (''nutrition_cons'', PStrList cons)]"
  using assms by (auto simp: analyze_product_def Let_def split: sum.splits prod.splits)

text \<open>
  C10. The result of \<open>analyze_product\<close> has exactly the keys \<open>product_name\<close>,
  \<open>ingredient_analysis\<close>, \<open>nutrition_pros\<close> and \<open>nutrition_cons\<close>, and no \<open>nutrition\<close> or
  \<open>nutrition_info\<close> key. So \<open>compute_safety_score_from_model2_output\<close> on it calls
  \<open>compute_safety_score\<close> with no numeric dictionary, and the nutrition sub-score is the one
  of the pros and cons lists: the double nearest to
  \<open>clamp(5.0 + 0.5 * |pros| - 0.7 * |cons|, 0, 10)\<close> (lists of fewer than \<open>2\<^sup>3\<^sup>2\<close> findings).
\<close>

theorem analyze_product_keys:
  assumes "analyze_product ratio product df ndf il = Inr d"
  shows "map fst d = [''product_name'', ''ingredient_analysis'', ''nutrition_pros'', ''nutrition_cons'']
         \<and> map_of d ''nutrition'' = None \<and> map_of d ''nutrition_info'' = None
         \<and> (\<exists>ia pros cons.
               map_of d ''ingredient_analysis'' = Some (PFindings ia)
               \<and> map_of d ''nutrition_pros'' = Some (PStrList pros)
               \<and> map_of d ''nutrition_cons'' = Some (PStrList cons)
               \<and> compute_safety_score_from_model2_output d wi wn
                   = compute_safety_score ia None (Some pros) (Some cons) wi wn
               \<and> nutri_score_of None (Some pros) (Some cons)
                   = compute_nutrition_score_from_pros_cons pros cons
               \<and> (length pros < 2 ^ 32 \<and> length cons < 2 ^ 32 \<longrightarrow>
                    compute_nutrition_score_from_pros_cons pros cons
                      = fl (pros_cons_formula (length pros) (length cons))))"
proof -
  obtain pn ia pros cons where d: "d = [(''product_name'', PStr pn), (''ingredient_analysis'', PFindings ia),
                                   (''nutrition_pros'', PStrList pros), (''nutrition_cons'', PStrList cons)]"
    using analyze_product_result[OF assms] by blast
  have a: "compute_safety_score_from_model2_output d wi wn
             = compute_safety_score ia None (Some pros) (Some cons) wi wn"
    by (simp add: d compute_safety_score_from_model2_output_def dict_get_def py_or_def Let_def)
  have b: "nutri_score_of None (Some pros) (Some cons)
             = compute_nutrition_score_from_pros_cons pros cons"
    by (simp add: nutri_score_of_def)
  have c: "length pros < 2 ^ 32 \<and> length cons < 2 ^ 32 \<longrightarrow>
             compute_nutrition_score_from_pros_cons pros cons
               = fl (pros_cons_formula (length pros) (length cons))"
    using pros_cons_value by blast
  show ?thesis using a b c by (simp add: d)
qed

lemma analyze_examples:
  "analyze_product fuzz_ratio
     \<lparr>ingredients = Some [''Sugar''],
      nutrition = Some [(''sugar_g'', NStr ''12.5 g''), (''sodium_mg'', NNum 100), (''fat_g'', NNull),
                        (''fiber_g'', NNum (1 / 2))],
      product_name = None\<rparr>
     [\<lparr>ingredient_name = ''sugar'', safety_status = ''caution'', reason_for_unsafety = ''r1''\<rparr>]
     [\<lparr>nutrient = ''sugar_g'', low_threshold = 0, high_threshold = 10, note_text = ''per 100g''\<rparr>,
      \<lparr>nutrient = ''sodium_mg'', low_threshold = 0, high_threshold = 100, note_text = ''n''\<rparr>,
      \<lparr>nutrient = ''fat_g'', low_threshold = 0, high_threshold = 100, note_text = ''n''\<rparr>,
      \<lparr>nutrient = ''fiber_g'', low_threshold = 3, high_threshold = 100, note_text = ''daily''\<rparr>]
     [''sugar'']
   = Inr [(''product_name'', PStr ''Unnamed Product''),
          (''ingredient_analysis'', PFindings [\<lparr>name = ''sugar'', status = ''caution'', reason = ''r1''\<rparr>]),
          (''nutrition_pros'', PStrList [''Balanced sodium_mg'']),
          (''nutrition_cons'', PStrList [''High sugar_g (per 100g)'', ''Low fiber_g (daily)''])]"
  by code_simp

theorem analyze_product_keys_witness:
  "map fst [(''product_name'', PStr ''Unnamed Product''),
          (''ingredient_analysis'', PFindings [\<lparr>name = ''sugar'', status = ''caution'', reason = ''r1''\<rparr>]),
          (''nutrition_pros'', PStrList [''Balanced sodium_mg'']),
          (''nutrition_cons'', PStrList [''High sugar_g (per 100g)'', ''Low fiber_g (daily)''])]
     = [''product_name'', ''ingredient_analysis'', ''nutrition_pros'', ''nutrition_cons'']
   \<and> compute_safety_score_from_model2_output
        [(''product_name'', PStr ''Unnamed Product''),
          (''ingredient_analysis'', PFindings [\<lparr>name = ''sugar'', status = ''caution'', reason = ''r1''\<rparr>]),
          (''nutrition_pros'', PStrList [''Balanced sodium_mg'']),
          (''nutrition_cons'', PStrList [''High sugar_g (per 100g)'', ''Low fiber_g (daily)''])] 7 3
     = compute_safety_score [\<lparr>name = ''sugar'', status = ''caution'', reason = ''r1''\<rparr>] None
         (Some [''Balanced sodium_mg'']) (Some [''High sugar_g (per 100g)'', ''Low fiber_g (daily)'']) 7 3
   \<and> compute_nutrition_score_from_pros_cons [''Balanced sodium_mg'']
         [''High sugar_g (per 100g)'', ''Low fiber_g (daily)''] = fl (41 / 10)"
  using analyze_product_keys[OF analyze_examples, of 7 3]
  by (simp add: pros_cons_formula_def)

end
